theory Spec2Isabelle
  imports Main "HOL-Library.Word"
begin

unbundle bit_operations_syntax

section \<open>The curl-backed HTTP client of net-cpp: \<^verbatim>\<open>src/core/net/http/impl/curl/client.cpp\<close>\<close>

text \<open>
  The client is a thin adapter.  Its base64 codec is written with the iterator adaptors of
  Boost.Serialization (\<^verbatim>\<open>base64_from_binary\<close>, \<^verbatim>\<open>binary_from_base64\<close>,
  \<^verbatim>\<open>transform_width\<close>); its four submission operations configure a
  \<^verbatim>\<open>curl::easy::Handle\<close> and wrap it in a \<^verbatim>\<open>Request\<close>.

  Bytes of a \<^verbatim>\<open>std::string\<close> are \<^typ>\<open>char\<close> (8 bits); \<^term>\<open>of_char\<close> reads
  a byte as a number in \<open>0..255\<close>.  Exceptions are values: a function that may throw returns a
  sum whose \<open>Inl\<close> carries the exception.  A loop whose termination depends on the iterator
  state is a \<^theory_text>\<open>partial_function (option)\<close>: \<open>None\<close> means the loop does not
  return.
\<close>


subsection \<open>Boost iterator adaptors used by the codec\<close>

text \<open>
  The kinds of \<^verbatim>\<open>boost::archive::iterators::dataflow_exception\<close>; the codec can only
  raise \<open>invalid_base64_character\<close>.
\<close>

datatype dataflow_exception =
    invalid_6_bitcode
  | invalid_base64_character
  | invalid_xml_escape_sequence
  | comparison
  | invalid_conversion
  | other_exception

text \<open>
  \<^verbatim>\<open>transform_width<Base, BitsOut, BitsIn>\<close> (boost/archive/iterators/transform_width.hpp,
  the implementation in use since Boost 1.53).  \<open>base_reference\<close> is the position of the
  underlying character pointer, counted from the start of the string.  The buffers have the
  iterator's value type \<^verbatim>\<open>char\<close>; they are kept as the unsigned value of their bit
  pattern, which is what the masking in \<^verbatim>\<open>fill\<close> leaves of a signed one.
\<close>

record transform_width =
  base_reference :: nat
  m_buffer_out :: nat
  m_buffer_out_full :: bool
  m_buffer_in :: nat
  m_remaining_bits :: nat
  m_end_of_sequence :: bool

definition transform_width_ctor :: "nat \<Rightarrow> transform_width" where
  "transform_width_ctor start =
     \<lparr>base_reference = start, m_buffer_out = 0, m_buffer_out_full = False,
      m_buffer_in = 0, m_remaining_bits = 0, m_end_of_sequence = False\<rparr>"

text \<open>
  One pass through the body of the \<^verbatim>\<open>do { ... } while (0 < missing_bits)\<close> loop of
  \<^verbatim>\<open>transform_width::fill\<close>.  \<open>deref\<close> dereferences the underlying iterator at a
  position and may throw.

  \<^verbatim>\<open>
  if (0 == m_remaining_bits) {
      if (m_end_of_sequence) { m_buffer_in = 0; m_remaining_bits = missing_bits; }
      else { m_buffer_in = * this->base_reference()++; m_remaining_bits = BitsIn; }
  }
  unsigned int i = (std::min)(missing_bits, m_remaining_bits);
  base_value_type j = m_buffer_in >> (m_remaining_bits - i);
  j &= (1 << i) - 1;
  m_buffer_out <<= i;
  m_buffer_out |= j;
  missing_bits -= i;
  m_remaining_bits -= i;
  \<close>
\<close>

definition fill_body ::
  "nat \<Rightarrow> (nat \<Rightarrow> dataflow_exception + nat) \<Rightarrow> nat \<Rightarrow> transform_width
     \<Rightarrow> dataflow_exception + (nat \<times> transform_width)" where
  "fill_body BitsIn deref missing_bits it =
     (case (if m_remaining_bits it = 0
            then (if m_end_of_sequence it
                  then Inr (it\<lparr>m_buffer_in := 0, m_remaining_bits := missing_bits\<rparr>)
                  else (case deref (base_reference it) of
                          Inl e \<Rightarrow> Inl e
                        | Inr v \<Rightarrow> Inr (it\<lparr>base_reference := base_reference it + 1,
                                           m_buffer_in := v, m_remaining_bits := BitsIn\<rparr>)))
            else Inr it) of
        Inl e \<Rightarrow> Inl e
      | Inr it1 \<Rightarrow>
          (let i = min missing_bits (m_remaining_bits it1);
               j = drop_bit (m_remaining_bits it1 - i) (m_buffer_in it1) AND (push_bit i 1 - 1)
           in Inr (missing_bits - i,
                   it1\<lparr>m_buffer_out := take_bit 8 (push_bit i (m_buffer_out it1)) OR j,
                        m_remaining_bits := m_remaining_bits it1 - i\<rparr>)))"

partial_function (option) fill_loop ::
  "nat \<Rightarrow> (nat \<Rightarrow> dataflow_exception + nat) \<Rightarrow> nat \<Rightarrow> transform_width
     \<Rightarrow> (dataflow_exception + transform_width) option" where
  "fill_loop BitsIn deref missing_bits it =
     (case fill_body BitsIn deref missing_bits it of
        Inl e \<Rightarrow> Some (Inl e)
      | Inr (missing_bits', it') \<Rightarrow>
          if 0 < missing_bits' then fill_loop BitsIn deref missing_bits' it'
          else Some (Inr it'))"

declare fill_loop.simps [code]

text \<open>
  \<^verbatim>\<open>fill\<close>: \<^verbatim>\<open>missing_bits = BitsOut; m_buffer_out = 0;\<close> the loop; then
  \<^verbatim>\<open>m_buffer_out_full = true\<close>.
\<close>

definition fill ::
  "nat \<Rightarrow> nat \<Rightarrow> (nat \<Rightarrow> dataflow_exception + nat) \<Rightarrow> transform_width
     \<Rightarrow> (dataflow_exception + transform_width) option" where
  "fill BitsOut BitsIn deref it =
     (case fill_loop BitsIn deref BitsOut (it\<lparr>m_buffer_out := 0\<rparr>) of
        None \<Rightarrow> None
      | Some (Inl e) \<Rightarrow> Some (Inl e)
      | Some (Inr it') \<Rightarrow> Some (Inr (it'\<lparr>m_buffer_out_full := True\<rparr>)))"

text \<open>
  \<^verbatim>\<open>dereference\<close>: \<^verbatim>\<open>if (!m_buffer_out_full) fill(); return m_buffer_out;\<close>
  (the member is \<^verbatim>\<open>const\<close> and casts the constness away, so the iterator changes).
\<close>

definition dereference ::
  "nat \<Rightarrow> nat \<Rightarrow> (nat \<Rightarrow> dataflow_exception + nat) \<Rightarrow> transform_width
     \<Rightarrow> (dataflow_exception + (nat \<times> transform_width)) option" where
  "dereference BitsOut BitsIn deref it =
     (if \<not> m_buffer_out_full it
      then (case fill BitsOut BitsIn deref it of
              None \<Rightarrow> None
            | Some (Inl e) \<Rightarrow> Some (Inl e)
            | Some (Inr it') \<Rightarrow> Some (Inr (m_buffer_out it', it')))
      else Some (Inr (m_buffer_out it, it)))"

definition increment :: "transform_width \<Rightarrow> transform_width" where
  "increment it = it\<lparr>m_buffer_out_full := False\<rparr>"

text \<open>
  \<^verbatim>\<open>equal_impl\<close>: when \<^verbatim>\<open>BitsIn < BitsOut\<close> the positions are compared; otherwise
  equal positions mark the end of the sequence on the left iterator and the iterators are equal
  once no bits remain.
\<close>

definition equal_impl ::
  "nat \<Rightarrow> nat \<Rightarrow> transform_width \<Rightarrow> transform_width \<Rightarrow> bool \<times> transform_width" where
  "equal_impl BitsOut BitsIn it rhs =
     (if BitsIn < BitsOut then (base_reference it = base_reference rhs, it)
      else if base_reference it = base_reference rhs
           then (0 = m_remaining_bits it, it\<lparr>m_end_of_sequence := True\<rparr>)
           else (False, it))"

text \<open>
  \<^verbatim>\<open>std::copy(first, last, std::ostream_iterator<char>(os))\<close>:
  \<^verbatim>\<open>for (; first != last; ++first) os << *first;\<close>.
  \<open>conv\<close> is what lies between the \<^verbatim>\<open>transform_width\<close> value and the character
  written: the lookup of \<^verbatim>\<open>base64_from_binary\<close> when encoding, the conversion to
  \<^verbatim>\<open>char\<close> when decoding.
\<close>

partial_function (option) std_copy ::
  "nat \<Rightarrow> nat \<Rightarrow> (nat \<Rightarrow> dataflow_exception + nat) \<Rightarrow> (nat \<Rightarrow> char)
     \<Rightarrow> transform_width \<Rightarrow> transform_width \<Rightarrow> string
     \<Rightarrow> (dataflow_exception + string) option" where
  "std_copy BitsOut BitsIn deref conv first last_it os =
     (case equal_impl BitsOut BitsIn first last_it of
        (eq, first1) \<Rightarrow>
          if eq then Some (Inr os)
          else (case dereference BitsOut BitsIn deref first1 of
                  None \<Rightarrow> None
                | Some (Inl e) \<Rightarrow> Some (Inl e)
                | Some (Inr (v, first2)) \<Rightarrow>
                    std_copy BitsOut BitsIn deref conv (increment first2) last_it (os @ [conv v])))"

declare std_copy.simps [code]

text \<open>
  \<^verbatim>\<open>base64_from_binary\<close> maps a 6-bit value through its table (its assertion
  \<^verbatim>\<open>t < 64\<close> always holds for the six bits \<^verbatim>\<open>transform_width\<close> delivers).
\<close>

definition base64_alphabet :: string where
  "base64_alphabet = ''ABCDEFGHIJKLMNOPQRSTUVWXYZabcdefghijklmnopqrstuvwxyz0123456789+/''"

definition from_6_bit :: "nat \<Rightarrow> char" where
  "from_6_bit t = base64_alphabet ! t"

text \<open>
  \<^verbatim>\<open>binary_from_base64\<close> maps a character through its table of 128 entries and throws
  on \<open>-1\<close> and on every character above 127; the table renders \<^verbatim>\<open>'='\<close> as 0.
  The table is written row by row, sixteen entries to a row as in the header.
\<close>

definition lookup_table :: "int list" where
  "lookup_table =
     [-1,-1,-1,-1,-1,-1,-1,-1,-1,-1,-1,-1,-1,-1,-1,-1] @
     [-1,-1,-1,-1,-1,-1,-1,-1,-1,-1,-1,-1,-1,-1,-1,-1] @
     [-1,-1,-1,-1,-1,-1,-1,-1,-1,-1,-1,62,-1,-1,-1,63] @
     [52,53,54,55,56,57,58,59,60,61,-1,-1,-1, 0,-1,-1] @
     [-1, 0, 1, 2, 3, 4, 5, 6, 7, 8, 9,10,11,12,13,14] @
     [15,16,17,18,19,20,21,22,23,24,25,-1,-1,-1,-1,-1] @
     [-1,26,27,28,29,30,31,32,33,34,35,36,37,38,39,40] @
     [41,42,43,44,45,46,47,48,49,50,51,-1,-1,-1,-1,-1]"

definition to_6_bit :: "char \<Rightarrow> dataflow_exception + nat" where
  "to_6_bit t =
     (let v = (if (of_char t :: nat) \<le> 127 then lookup_table ! of_char t else -1)
      in if v = -1 then Inl invalid_base64_character else Inr (nat v))"


subsection \<open>The codec of the client\<close>

text \<open>
  The character at \<^verbatim>\<open>s.c_str() + i\<close> (or \<^verbatim>\<open>s.data() + i\<close>): the bytes of the string,
  then the terminating NUL.  The decoder never reads behind the terminator, because reading
  the terminator throws.
\<close>

definition c_str_at :: "string \<Rightarrow> nat \<Rightarrow> char" where
  "c_str_at s i = (if i < length s then s ! i else CHR 0x00)"

definition BASE64_PADDING :: "string list" where
  "BASE64_PADDING = ['''', ''=='', ''='']"

text \<open>
  \<^verbatim>\<open>Client::base64_encode\<close>: copy
  \<^verbatim>\<open>base64_from_binary<transform_width<const char *, 6, 8>>\<close> over
  \<^verbatim>\<open>[s.c_str(), s.c_str() + s.size())\<close>, then append
  \<^verbatim>\<open>BASE64_PADDING[s.size() % 3]\<close>.
\<close>

definition base64_encode :: "string \<Rightarrow> (dataflow_exception + string) option" where
  "base64_encode s =
     (case std_copy 6 8 (\<lambda>i. Inr (of_char (c_str_at s i))) from_6_bit
             (transform_width_ctor 0) (transform_width_ctor (length s)) [] of
        None \<Rightarrow> None
      | Some (Inl e) \<Rightarrow> Some (Inl e)
      | Some (Inr os) \<Rightarrow> Some (Inr (os @ BASE64_PADDING ! (length s mod 3))))"

text \<open>
  The first lines of \<^verbatim>\<open>Client::base64_decode\<close>.  \<^verbatim>\<open>size\<close> is an
  \<^verbatim>\<open>unsigned int\<close> initialised from \<^verbatim>\<open>s.size()\<close>, a 32-bit word that keeps
  the low 32 bits of the length.

  \<^verbatim>\<open>
  unsigned int size = s.size();
  if (size && s[size - 1] == '=') {
      --size;
      if (size && s[size - 1] == '=')
          --size;
  }
  \<close>
\<close>

definition remove_padding :: "string \<Rightarrow> 32 word" where
  "remove_padding s =
     (let size = (of_nat (length s) :: 32 word)
      in if size \<noteq> 0 \<and> c_str_at s (unat (size - 1)) = CHR ''=''
         then (let size = size - 1
               in if size \<noteq> 0 \<and> c_str_at s (unat (size - 1)) = CHR ''=''
                  then size - 1 else size)
         else size)"

text \<open>
  The rest of \<^verbatim>\<open>Client::base64_decode\<close>: the empty string when \<^verbatim>\<open>size == 0\<close>,
  else copy \<^verbatim>\<open>transform_width<binary_from_base64<const char *>, 8, 6>\<close> over
  \<^verbatim>\<open>[s.data(), s.data() + size)\<close>.
\<close>

definition base64_decode :: "string \<Rightarrow> (dataflow_exception + string) option" where
  "base64_decode s =
     (let size = remove_padding s
      in if size = 0 then Some (Inr [])
         else std_copy 8 6 (\<lambda>i. to_6_bit (c_str_at s i)) char_of
                (transform_width_ctor 0) (transform_width_ctor (unat size)) [])"


subsection \<open>RFC 4648 base64, as a specification\<close>

text \<open>
  The encoding as RFC 4648, section 4, words it, independent of the iterators above.  The
  alphabet is Table 1: values 0 to 25 are \<open>A\<close> to \<open>Z\<close>, 26 to 51 are \<open>a\<close> to \<open>z\<close>,
  52 to 61 are the digits, 62 is \<open>+\<close> and 63 is \<open>/\<close>.
\<close>

definition rfc4648_alphabet :: "nat \<Rightarrow> char" where
  "rfc4648_alphabet v =
     (if v < 26 then char_of (of_char CHR ''A'' + v)
      else if v < 52 then char_of (of_char CHR ''a'' + (v - 26))
      else if v < 62 then char_of (of_char CHR ''0'' + (v - 52))
      else if v = 62 then CHR ''+'' else CHR ''/'')"

text \<open>
  A 24-bit group of three bytes is read as four 6-bit groups.  A final group of 8 bits is
  filled with zero bits on the right to 12 bits, giving two characters and \<open>==\<close>; a final group
  of 16 bits is filled to 18 bits, giving three characters and \<open>=\<close>.
\<close>

fun rfc4648_encode :: "string \<Rightarrow> string" where
  "rfc4648_encode [] = []"
| "rfc4648_encode [a] =
     (let q = of_char a * 16
      in [rfc4648_alphabet (q div 64 mod 64), rfc4648_alphabet (q mod 64), CHR ''='', CHR ''=''])"
| "rfc4648_encode [a, b] =
     (let q = (of_char a * 256 + of_char b) * 4
      in [rfc4648_alphabet (q div 4096 mod 64), rfc4648_alphabet (q div 64 mod 64),
          rfc4648_alphabet (q mod 64), CHR ''=''])"
| "rfc4648_encode (a # b # c # rest) =
     (let q = of_char a * 65536 + of_char b * 256 + of_char c
      in [rfc4648_alphabet (q div 262144 mod 64), rfc4648_alphabet (q div 4096 mod 64),
          rfc4648_alphabet (q div 64 mod 64), rfc4648_alphabet (q mod 64)] @ rfc4648_encode rest)"

text \<open>
  The characters the encoding iterator yields, three bytes at a time, in the form in which
  \<^const>\<open>fill_body\<close> assembles them.  Used to state what the copy loops compute.
\<close>

fun base64_chars :: "string \<Rightarrow> string" where
  "base64_chars [] = []"
| "base64_chars [a] =
     [from_6_bit (of_char a div 4 mod 64), from_6_bit (of_char a mod 4 * 16)]"
| "base64_chars [a, b] =
     [from_6_bit (of_char a div 4 mod 64),
      from_6_bit (of_char a mod 4 * 16 + of_char b div 16 mod 16),
      from_6_bit (of_char b mod 16 * 4)]"
| "base64_chars (a # b # c # rest) =
     [from_6_bit (of_char a div 4 mod 64),
      from_6_bit (of_char a mod 4 * 16 + of_char b div 16 mod 16),
      from_6_bit (of_char b mod 16 * 4 + of_char c div 64 mod 4),
      from_6_bit (of_char c mod 64)] @ base64_chars rest"

text \<open>The number of \<open>=\<close> characters at the end of a string, counted up to two.\<close>

definition padding_length :: "string \<Rightarrow> nat" where
  "padding_length s =
     (if s \<noteq> [] \<and> last s = CHR ''=''
      then (if butlast s \<noteq> [] \<and> last (butlast s) = CHR ''='' then 2 else 1)
      else 0)"


subsection \<open>Configuration, transfer handle, request and multiplexer\<close>

text \<open>
  \<^verbatim>\<open>const char*\<close> arguments: \<^verbatim>\<open>x.c_str()\<close> handed to a callee that takes a C string
  (or builds a \<^verbatim>\<open>std::string\<close> from one) ends at the first NUL byte.
\<close>

definition c_str :: "string \<Rightarrow> string" where
  "c_str s = takeWhile (\<lambda>c. c \<noteq> CHR 0x00) s"

text \<open>
  Modelled from the spec: the error kinds a submission can surface synchronously
  (\<open>InvalidRequest\<close>, \<open>CredentialResolutionFailed\<close>); no such type is declared in
  \<^verbatim>\<open>client.cpp\<close>.  \<open>runtime_error\<close> stands for any other C++ exception, such as one thrown
  by a user-supplied authentication handler.
\<close>

datatype exn = InvalidRequest | CredentialResolutionFailed | runtime_error string

datatype Method = Method_head | Method_get | Method_post | Method_put

text \<open>
  Modelled from the spec: the options and option values of \<^verbatim>\<open>curl.h\<close>, which is not part
  of the sources at hand.  Only their names occur in \<^verbatim>\<open>client.cpp\<close>; the values are those
  libcurl expects for the corresponding settings.
\<close>

datatype Option = ssl_verify_host | ssl_verify_peer | pipelining

definition disable :: int where
  "disable = 0"

definition enable :: int where
  "enable = 1"

definition enable_ssl_host_verification :: int where
  "enable_ssl_host_verification = 2"

record credentials =
  username :: string
  password :: string

record ssl_options =
  verify_peer :: bool
  verify_host :: bool

text \<open>
  Modelled from the spec: \<^verbatim>\<open>http::Request::Configuration\<close> (declared in
  \<^verbatim>\<open>request.h\<close>): target URI, header mapping in insertion order, TLS policy and an
  optional authentication handler.  \<^verbatim>\<open>client.cpp\<close> reads the fields \<open>uri\<close>,
  \<open>header\<close>, \<open>ssl.verify_host\<close>, \<open>ssl.verify_peer\<close> and
  \<open>authentication_handler.for_http\<close>; an empty \<^verbatim>\<open>std::function\<close> is \<open>None\<close>.
\<close>

record Configuration =
  uri :: string
  header :: "(string \<times> string) list"
  ssl :: ssl_options
  authentication_handler_for_http :: "(string \<Rightarrow> exn + credentials) option"

text \<open>
  Modelled from the spec: a default-constructed configuration verifies both peer and host.
\<close>

definition default_Configuration :: Configuration where
  "default_Configuration =
     \<lparr>uri = [], header = [], ssl = \<lparr>verify_peer = True, verify_host = True\<rparr>,
      authentication_handler_for_http = None\<rparr>"

text \<open>
  \<^verbatim>\<open>std::istream\<close>, as far as \<^verbatim>\<open>readsome\<close> sees it: the characters that are
  available without blocking.  \<^verbatim>\<open>readsome(dest, n)\<close> extracts up to \<open>n\<close> of them into
  \<^verbatim>\<open>dest\<close> and returns how many; \<open>n\<close> is a signed \<^verbatim>\<open>std::streamsize\<close>, and a
  count that is not positive extracts nothing.
\<close>

record istream =
  in_avail :: string

definition readsome :: "int \<Rightarrow> istream \<Rightarrow> string \<times> istream" where
  "readsome n payload =
     (take (nat n) (in_avail payload), payload\<lparr>in_avail := drop (nat n) (in_avail payload)\<rparr>)"

text \<open>
  Modelled from the spec: the body source of a transfer handle is absent, an in-memory buffer
  with its content type, or a streaming read callback with the declared size.  A read callback
  receives \<^verbatim>\<open>(dest, in_size, nmemb)\<close>, where \<^verbatim>\<open>dest\<close> has room for
  \<^verbatim>\<open>in_size * nmemb\<close> bytes, and acts on the stream it captured; it yields the bytes it
  stored at \<^verbatim>\<open>dest\<close> and the count it returns.
\<close>

datatype body_source =
    no_body
  | buffer string string
  | stream "nat \<Rightarrow> nat \<Rightarrow> istream \<Rightarrow> (string \<times> nat) \<times> istream" nat

text \<open>
  Modelled from the spec: \<^verbatim>\<open>curl::easy::Handle\<close> (declared in \<^verbatim>\<open>curl.h\<close>), the
  transfer handle: method, URL, header set, options (among them the TLS policy), body source
  and credentials.  Each member function called by \<^verbatim>\<open>client.cpp\<close> records its argument.
\<close>

record Handle =
  h_method :: "Method option"
  h_url :: string
  h_header :: "(string \<times> string) list"
  h_options :: "Option \<Rightarrow> int option"
  h_body :: body_source
  h_credentials :: "credentials option"

definition Handle_ctor :: Handle where
  "Handle_ctor =
     \<lparr>h_method = None, h_url = [], h_header = [], h_options = (\<lambda>_. None),
      h_body = no_body, h_credentials = None\<rparr>"

definition Handle_method :: "Method \<Rightarrow> Handle \<Rightarrow> Handle" where
  "Handle_method m h = h\<lparr>h_method := Some m\<rparr>"

text \<open>
  Modelled from the spec: \<^verbatim>\<open>Handle::url\<close>.  The URL must be non-empty, and a malformed
  URL fails with \<open>InvalidRequest\<close>.  The spec does not say which URLs are malformed, so the
  test is the parameter \<open>well_formed\<close>.
\<close>

definition Handle_url :: "(string \<Rightarrow> bool) \<Rightarrow> string \<Rightarrow> Handle \<Rightarrow> exn + Handle" where
  "Handle_url well_formed u h =
     (if u \<noteq> [] \<and> well_formed u then Inr (h\<lparr>h_url := u\<rparr>) else Inl InvalidRequest)"

definition Handle_header :: "(string \<times> string) list \<Rightarrow> Handle \<Rightarrow> Handle" where
  "Handle_header hs h = h\<lparr>h_header := hs\<rparr>"

text \<open>
  Modelled from the spec: \<^verbatim>\<open>Handle::post_data\<close> attaches the data it is given as the
  request body, together with the content type.
\<close>

definition Handle_post_data :: "string \<Rightarrow> string \<Rightarrow> Handle \<Rightarrow> Handle" where
  "Handle_post_data data ct h = h\<lparr>h_body := buffer data ct\<rparr>"

text \<open>
  Modelled from the spec: \<^verbatim>\<open>Handle::on_read_data\<close> installs the read callback and the
  declared size.
\<close>

definition Handle_on_read_data ::
  "(nat \<Rightarrow> nat \<Rightarrow> istream \<Rightarrow> (string \<times> nat) \<times> istream) \<Rightarrow> nat \<Rightarrow> Handle \<Rightarrow> Handle" where
  "Handle_on_read_data cb sz h = h\<lparr>h_body := stream cb sz\<rparr>"

definition Handle_set_option :: "Option \<Rightarrow> int \<Rightarrow> Handle \<Rightarrow> Handle" where
  "Handle_set_option opt v h = h\<lparr>h_options := (h_options h)(opt \<mapsto> v)\<rparr>"

text \<open>
  Modelled from the spec: \<^verbatim>\<open>Handle::http_credentials\<close> attaches the credentials to the
  handle for transport-level authentication.
\<close>

definition Handle_http_credentials :: "string \<Rightarrow> string \<Rightarrow> Handle \<Rightarrow> Handle" where
  "Handle_http_credentials u p h = h\<lparr>h_credentials := Some \<lparr>username = u, password = p\<rparr>\<rparr>"

text \<open>
  Modelled from the spec: the request facade is a single-assignment future that starts
  \<open>pending\<close>; the multiplexer owns the active transfer handles (here in order of
  registration, a request's identifier being its handle's position), its options and one timing
  record per completed transfer.
\<close>

datatype request_state = pending | completed | failed

record Request =
  r_id :: nat
  r_handle :: Handle
  r_state :: request_state

record Multi =
  m_options :: "Option \<Rightarrow> int option"
  m_active :: "Handle list"
  m_timings :: "(nat \<times> nat) list"

record Client =
  multi :: Multi

text \<open>
  \<^verbatim>\<open>Client::Client()\<close>:
  \<^verbatim>\<open>multi.set_option(::curl::multi::Option::pipelining, ::curl::easy::enable)\<close>.
\<close>

definition Client_ctor :: Client where
  "Client_ctor =
     \<lparr>multi = \<lparr>m_options = [pipelining \<mapsto> enable], m_active = [], m_timings = []\<rparr>\<rparr>"

text \<open>
  Modelled from the spec: \<^verbatim>\<open>Request{multi, handle}\<close> (declared in \<^verbatim>\<open>request.h\<close>).
  On success a new transfer handle is registered with the multiplexer and a fresh request
  facade in the pending state is returned; nothing else of the multiplexer changes.
\<close>

definition Request_ctor :: "Client \<Rightarrow> Handle \<Rightarrow> (exn + Request) \<times> Client" where
  "Request_ctor c handle =
     (Inr \<lparr>r_id = length (m_active (multi c)), r_handle = handle, r_state = pending\<rparr>,
      c\<lparr>multi := (multi c)\<lparr>m_active := m_active (multi c) @ [handle]\<rparr>\<rparr>)"


subsection \<open>The submission operations\<close>

text \<open>
  Every operation returns the request or the exception that left it, and the client as the call
  leaves it.  The first argument is the URL test of \<^const>\<open>Handle_url\<close>.
  \<^verbatim>\<open>Client::head\<close>:

  \<^verbatim>\<open>
  ::curl::easy::Handle handle;
  handle.method(http::Method::head).url(configuration.uri.c_str()).header(configuration.header);
  handle.set_option(::curl::Option::ssl_verify_host,
      configuration.ssl.verify_host ? enable_ssl_host_verification : disable);
  handle.set_option(::curl::Option::ssl_verify_peer,
      configuration.ssl.verify_peer ? enable : disable);
  if (configuration.authentication_handler.for_http) {
      auto credentials = configuration.authentication_handler.for_http(configuration.uri);
      handle.http_credentials(credentials.username, credentials.password);
  }
  return std::shared_ptr<http::Request>{new http::impl::curl::Request{multi, handle}};
  \<close>
\<close>

definition Client_head ::
  "(string \<Rightarrow> bool) \<Rightarrow> Client \<Rightarrow> Configuration \<Rightarrow> (exn + Request) \<times> Client" where
  "Client_head well_formed c configuration =
     (case Handle_url well_formed (c_str (uri configuration))
             (Handle_method Method_head Handle_ctor) of
        Inl e \<Rightarrow> (Inl e, c)
      | Inr handle \<Rightarrow>
          (let handle = Handle_header (header configuration) handle;
               handle = Handle_set_option ssl_verify_host
                          (if verify_host (ssl configuration)
                           then enable_ssl_host_verification else disable) handle;
               handle = Handle_set_option ssl_verify_peer
                          (if verify_peer (ssl configuration) then enable else disable) handle
           in case authentication_handler_for_http configuration of
                None \<Rightarrow> Request_ctor c handle
              | Some for_http \<Rightarrow>
                  (case for_http (uri configuration) of
                     Inl e \<Rightarrow> (Inl e, c)
                   | Inr credentials \<Rightarrow>
                       Request_ctor c
                         (Handle_http_credentials (username credentials) (password credentials)
                            handle))))"

text \<open>\<^verbatim>\<open>Client::get\<close>: as \<^verbatim>\<open>head\<close>, with \<^verbatim>\<open>http::Method::get\<close>.\<close>

definition Client_get ::
  "(string \<Rightarrow> bool) \<Rightarrow> Client \<Rightarrow> Configuration \<Rightarrow> (exn + Request) \<times> Client" where
  "Client_get well_formed c configuration =
     (case Handle_url well_formed (c_str (uri configuration))
             (Handle_method Method_get Handle_ctor) of
        Inl e \<Rightarrow> (Inl e, c)
      | Inr handle \<Rightarrow>
          (let handle = Handle_header (header configuration) handle;
               handle = Handle_set_option ssl_verify_host
                          (if verify_host (ssl configuration)
                           then enable_ssl_host_verification else disable) handle;
               handle = Handle_set_option ssl_verify_peer
                          (if verify_peer (ssl configuration) then enable else disable) handle
           in case authentication_handler_for_http configuration of
                None \<Rightarrow> Request_ctor c handle
              | Some for_http \<Rightarrow>
                  (case for_http (uri configuration) of
                     Inl e \<Rightarrow> (Inl e, c)
                   | Inr credentials \<Rightarrow>
                       Request_ctor c
                         (Handle_http_credentials (username credentials) (password credentials)
                            handle))))"

text \<open>
  \<^verbatim>\<open>Client::post\<close>: the handle chain ends in
  \<^verbatim>\<open>.post_data(payload.c_str(), ct)\<close>.
\<close>

definition Client_post ::
  "(string \<Rightarrow> bool) \<Rightarrow> Client \<Rightarrow> Configuration \<Rightarrow> string \<Rightarrow> string
     \<Rightarrow> (exn + Request) \<times> Client" where
  "Client_post well_formed c configuration payload ct =
     (case Handle_url well_formed (c_str (uri configuration))
             (Handle_method Method_post Handle_ctor) of
        Inl e \<Rightarrow> (Inl e, c)
      | Inr handle \<Rightarrow>
          (let handle = Handle_header (header configuration) handle;
               handle = Handle_post_data (c_str payload) ct handle;
               handle = Handle_set_option ssl_verify_host
                          (if verify_host (ssl configuration)
                           then enable_ssl_host_verification else disable) handle;
               handle = Handle_set_option ssl_verify_peer
                          (if verify_peer (ssl configuration) then enable else disable) handle
           in case authentication_handler_for_http configuration of
                None \<Rightarrow> Request_ctor c handle
              | Some for_http \<Rightarrow>
                  (case for_http (uri configuration) of
                     Inl e \<Rightarrow> (Inl e, c)
                   | Inr credentials \<Rightarrow>
                       Request_ctor c
                         (Handle_http_credentials (username credentials) (password credentials)
                            handle))))"

text \<open>
  The read callback \<^verbatim>\<open>Client::put\<close> installs.  It captures the stream and \<^verbatim>\<open>size\<close>
  and leaves \<^verbatim>\<open>in_size\<close> and \<^verbatim>\<open>nmemb\<close> unnamed.  \<^verbatim>\<open>size\<close> is a
  \<^verbatim>\<open>std::size_t\<close> handed to the signed count of \<^verbatim>\<open>readsome\<close>: its 64 bits are read
  as two's complement, so a size of \<open>2 ^ 63\<close> or more arrives as a negative count.

  \<^verbatim>\<open>
  [&payload, size](void* dest, std::size_t /*in_size*/, std::size_t /*nmemb*/)
  {
      auto result = payload.readsome(static_cast<char*>(dest), size);
      return result;
  }
  \<close>
\<close>

definition on_read_data_lambda ::
  "nat \<Rightarrow> nat \<Rightarrow> nat \<Rightarrow> istream \<Rightarrow> (string \<times> nat) \<times> istream" where
  "on_read_data_lambda sz in_size nmemb payload =
     (case readsome (sint (of_nat sz :: 64 word)) payload of
        (dest, payload') \<Rightarrow> ((dest, length dest), payload'))"

text \<open>
  \<^verbatim>\<open>Client::put\<close>: the handle chain ends in \<^verbatim>\<open>.on_read_data(<callback>, size)\<close>.
  The stream stays with the caller; the callback acts on it when the engine invokes it.
\<close>

definition Client_put ::
  "(string \<Rightarrow> bool) \<Rightarrow> Client \<Rightarrow> Configuration \<Rightarrow> nat \<Rightarrow> (exn + Request) \<times> Client" where
  "Client_put well_formed c configuration sz =
     (case Handle_url well_formed (c_str (uri configuration))
             (Handle_method Method_put Handle_ctor) of
        Inl e \<Rightarrow> (Inl e, c)
      | Inr handle \<Rightarrow>
          (let handle = Handle_header (header configuration) handle;
               handle = Handle_on_read_data (on_read_data_lambda sz) sz handle;
               handle = Handle_set_option ssl_verify_host
                          (if verify_host (ssl configuration)
                           then enable_ssl_host_verification else disable) handle;
               handle = Handle_set_option ssl_verify_peer
                          (if verify_peer (ssl configuration) then enable else disable) handle
           in case authentication_handler_for_http configuration of
                None \<Rightarrow> Request_ctor c handle
              | Some for_http \<Rightarrow>
                  (case for_http (uri configuration) of
                     Inl e \<Rightarrow> (Inl e, c)
                   | Inr credentials \<Rightarrow>
                       Request_ctor c
                         (Handle_http_credentials (username credentials) (password credentials)
                            handle))))"

text \<open>
  The codec as member functions: both are \<^verbatim>\<open>const\<close> and touch no member, so the client
  is returned as it was.
\<close>

definition Client_base64_encode ::
  "Client \<Rightarrow> string \<Rightarrow> (dataflow_exception + string) option \<times> Client" where
  "Client_base64_encode c s = (base64_encode s, c)"

definition Client_base64_decode ::
  "Client \<Rightarrow> string \<Rightarrow> (dataflow_exception + string) option \<times> Client" where
  "Client_base64_decode c s = (base64_decode s, c)"

text \<open>Notions used to state the properties of the submission operations.\<close>

definition handler_yields :: "Configuration \<Rightarrow> bool" where
  "handler_yields configuration =
     (case authentication_handler_for_http configuration of
        None \<Rightarrow> True
      | Some for_http \<Rightarrow> (case for_http (uri configuration) of Inl e \<Rightarrow> False | Inr cr \<Rightarrow> True))"

definition option_on :: "int option \<Rightarrow> bool" where
  "option_on v = (case v of None \<Rightarrow> False | Some x \<Rightarrow> x \<noteq> disable)"

text \<open>
  The TLS options of a handle are those of a configuration: each option holds the value chosen
  by its own flag, and is on exactly when that flag is.
\<close>

definition tls_policy_mapped :: "Configuration \<Rightarrow> Handle \<Rightarrow> bool" where
  "tls_policy_mapped configuration h =
     (h_options h ssl_verify_host =
        Some (if verify_host (ssl configuration) then enable_ssl_host_verification else disable)
      \<and> h_options h ssl_verify_peer =
        Some (if verify_peer (ssl configuration) then enable else disable)
      \<and> option_on (h_options h ssl_verify_host) = verify_host (ssl configuration)
      \<and> option_on (h_options h ssl_verify_peer) = verify_peer (ssl configuration))"

definition registered :: "Client \<Rightarrow> Handle \<Rightarrow> Client" where
  "registered c h = c\<lparr>multi := (multi c)\<lparr>m_active := m_active (multi c) @ [h]\<rparr>\<rparr>"

definition example_Configuration :: Configuration where
  "example_Configuration = default_Configuration\<lparr>uri := ''http://example.org/''\<rparr>"

text \<open>
  A URL test that refuses NUL bytes and spaces, and a configuration whose URI is well-formed up
  to an embedded NUL byte and malformed as a whole.
\<close>

definition no_nul_no_space :: "string \<Rightarrow> bool" where
  "no_nul_no_space u = (CHR 0x00 \<notin> set u \<and> CHR '' '' \<notin> set u)"

definition cut_Configuration :: Configuration where
  "cut_Configuration =
     default_Configuration\<lparr>uri := ''http://a'' @ [CHR 0x00] @ '' not a url''\<rparr>"


subsection \<open>Bit operations of the iterator, as arithmetic\<close>

text \<open>
  Shifting right and masking is division and remainder; shifting left and or-ing in a value
  that fits the vacated bits is multiplication and addition.
\<close>

lemma mask_shift:
  fixes b :: nat
  shows "drop_bit k b AND (push_bit i 1 - 1) = (b div 2 ^ k) mod 2 ^ i"
proof -
  have "push_bit i (1::nat) - 1 = mask i"
    by (simp only: push_bit_of_1 mask_eq_exp_minus_1)
  then show ?thesis
    by (simp only: drop_bit_eq_div flip: take_bit_eq_mask take_bit_eq_mod)
qed

lemma shift_or:
  fixes out j :: nat
  assumes "j < 2 ^ i" "out * 2 ^ i < 256"
  shows "take_bit 8 (push_bit i out) OR j = out * 2 ^ i + j"
proof -
  have j: "take_bit i j = j" using assms(1) by (rule take_bit_nat_eq_self)
  have "push_bit i out AND take_bit i j = 0"
    by (rule bit_eqI) (auto simp: bit_simps)
  then have "push_bit i out + j = push_bit i out OR j"
    using j disjunctive_add_eq_or[of "push_bit i out" j] by simp
  moreover have "take_bit 8 (push_bit i out) = push_bit i out"
    using assms(2) by (simp add: take_bit_nat_eq_self push_bit_eq_mult)
  ultimately show ?thesis by (simp add: push_bit_eq_mult)
qed

lemma fill_body_arith:
  "fill_body BitsIn deref missing_bits it =
     (case (if m_remaining_bits it = 0
            then (if m_end_of_sequence it
                  then Inr (it\<lparr>m_buffer_in := 0, m_remaining_bits := missing_bits\<rparr>)
                  else (case deref (base_reference it) of
                          Inl e \<Rightarrow> Inl e
                        | Inr v \<Rightarrow> Inr (it\<lparr>base_reference := base_reference it + 1,
                                           m_buffer_in := v, m_remaining_bits := BitsIn\<rparr>)))
            else Inr it) of
        Inl e \<Rightarrow> Inl e
      | Inr it1 \<Rightarrow>
          (let i = min missing_bits (m_remaining_bits it1);
               j = (m_buffer_in it1 div 2 ^ (m_remaining_bits it1 - i)) mod 2 ^ i
           in Inr (missing_bits - i,
                   it1\<lparr>m_buffer_out := take_bit 8 (push_bit i (m_buffer_out it1)) OR j,
                        m_remaining_bits := m_remaining_bits it1 - i\<rparr>)))"
  by (simp only: fill_body_def mask_shift)

lemma shift_or_mod:
  fixes x j m :: nat
  assumes "j < 2 ^ i" "m * 2 ^ i \<le> 256" "0 < m"
  shows "take_bit 8 (push_bit i (x mod m)) OR j = (x mod m) * 2 ^ i + j"
proof -
  have "x mod m < m" using assms(3) by simp
  then have "(x mod m) * 2 ^ i < m * 2 ^ i" by simp
  then have "(x mod m) * 2 ^ i < 256" using assms(2) by linarith
  then show ?thesis using assms(1) by (rule shift_or[rotated])
qed

lemma shift_mod:
  fixes x m :: nat
  assumes "m * 2 ^ i \<le> 256" "0 < m"
  shows "take_bit 8 (push_bit i (x mod m)) = (x mod m) * 2 ^ i"
  using shift_or_mod[of 0 i m x] assms by simp


subsection \<open>Single steps of the copy loops\<close>

text \<open>
  One round of \<^const>\<open>std_copy\<close> (comparison, dereference, increment) from each state the
  iterators can be in.  The encoder (6 bits out of 8) has 0, 2, 4 or 6 bits left over and
  reaches the end of the input with 0, 2 or 4 of them; the decoder (8 bits out of 6) has 0, 4 or
  2 bits left over.
\<close>

lemma std_copy_step:
  assumes "equal_impl BitsOut BitsIn it last_it = (False, it1)"
    and "dereference BitsOut BitsIn deref it1 = Some (Inr (v, it2))"
  shows "std_copy BitsOut BitsIn deref conv it last_it os =
         std_copy BitsOut BitsIn deref conv (increment it2) last_it (os @ [conv v])"
  by (subst std_copy.simps) (simp add: assms)

lemma std_copy_stop:
  assumes "equal_impl BitsOut BitsIn it last_it = (True, it1)"
  shows "std_copy BitsOut BitsIn deref conv it last_it os = Some (Inr os)"
  by (subst std_copy.simps) (simp add: assms)

lemma enc_step0:
  assumes "m_remaining_bits it = 0" "\<not> m_end_of_sequence it" "\<not> m_buffer_out_full it"
    and "base_reference it \<noteq> base_reference last_it"
    and "deref (base_reference it) = Inr b"
  shows "\<exists>it'. std_copy 6 8 deref conv it last_it os =
               std_copy 6 8 deref conv it' last_it (os @ [conv (b div 4 mod 64)])
             \<and> base_reference it' = base_reference it + 1 \<and> m_remaining_bits it' = 2
             \<and> \<not> m_buffer_out_full it' \<and> \<not> m_end_of_sequence it' \<and> m_buffer_in it' = b"
proof -
  let ?it1 = "it\<lparr>base_reference := base_reference it + 1, m_buffer_in := b,
                 m_buffer_out := b div 4 mod 64, m_remaining_bits := 2\<rparr>"
  have eq: "equal_impl 6 8 it last_it = (False, it)"
    using assms by (simp add: equal_impl_def)
  have "fill_loop 8 deref 6 (it\<lparr>m_buffer_out := 0\<rparr>) = Some (Inr ?it1)"
    using assms by (subst fill_loop.simps) (simp add: fill_body_arith)
  then have "dereference 6 8 deref it =
          Some (Inr (b div 4 mod 64, ?it1\<lparr>m_buffer_out_full := True\<rparr>))"
    using assms by (simp add: dereference_def fill_def)
  from std_copy_step[OF eq this, of conv os] show ?thesis
    using assms by (intro exI[of _ "increment (?it1\<lparr>m_buffer_out_full := True\<rparr>)"])
      (simp add: increment_def)
qed

lemma enc_step2:
  assumes "m_remaining_bits it = 2" "\<not> m_end_of_sequence it" "\<not> m_buffer_out_full it"
    and "base_reference it \<noteq> base_reference last_it"
    and "deref (base_reference it) = Inr b"
  shows "\<exists>it'. std_copy 6 8 deref conv it last_it os =
               std_copy 6 8 deref conv it' last_it
                 (os @ [conv (m_buffer_in it mod 4 * 16 + b div 16 mod 16)])
             \<and> base_reference it' = base_reference it + 1 \<and> m_remaining_bits it' = 4
             \<and> \<not> m_buffer_out_full it' \<and> \<not> m_end_of_sequence it' \<and> m_buffer_in it' = b"
proof -
  let ?v = "m_buffer_in it mod 4 * 16 + b div 16 mod 16"
  let ?it1 = "it\<lparr>base_reference := base_reference it + 1, m_buffer_in := b,
                 m_buffer_out := ?v, m_remaining_bits := 4\<rparr>"
  have eq: "equal_impl 6 8 it last_it = (False, it)"
    using assms by (simp add: equal_impl_def)
  have "fill_loop 8 deref 6 (it\<lparr>m_buffer_out := 0\<rparr>) = Some (Inr ?it1)"
    using assms
    by (subst fill_loop.simps, simp add: fill_body_arith, subst fill_loop.simps)
       (simp add: fill_body_arith shift_or_mod)
  then have "dereference 6 8 deref it = Some (Inr (?v, ?it1\<lparr>m_buffer_out_full := True\<rparr>))"
    using assms by (simp add: dereference_def fill_def)
  from std_copy_step[OF eq this, of conv os] show ?thesis
    using assms by (intro exI[of _ "increment (?it1\<lparr>m_buffer_out_full := True\<rparr>)"])
      (simp add: increment_def)
qed

lemma enc_step4:
  assumes "m_remaining_bits it = 4" "\<not> m_end_of_sequence it" "\<not> m_buffer_out_full it"
    and "base_reference it \<noteq> base_reference last_it"
    and "deref (base_reference it) = Inr b"
  shows "\<exists>it'. std_copy 6 8 deref conv it last_it os =
               std_copy 6 8 deref conv it' last_it
                 (os @ [conv (m_buffer_in it mod 16 * 4 + b div 64 mod 4)])
             \<and> base_reference it' = base_reference it + 1 \<and> m_remaining_bits it' = 6
             \<and> \<not> m_buffer_out_full it' \<and> \<not> m_end_of_sequence it' \<and> m_buffer_in it' = b"
proof -
  let ?v = "m_buffer_in it mod 16 * 4 + b div 64 mod 4"
  let ?it1 = "it\<lparr>base_reference := base_reference it + 1, m_buffer_in := b,
                 m_buffer_out := ?v, m_remaining_bits := 6\<rparr>"
  have eq: "equal_impl 6 8 it last_it = (False, it)"
    using assms by (simp add: equal_impl_def)
  have "fill_loop 8 deref 6 (it\<lparr>m_buffer_out := 0\<rparr>) = Some (Inr ?it1)"
    using assms
    by (subst fill_loop.simps, simp add: fill_body_arith, subst fill_loop.simps)
       (simp add: fill_body_arith shift_or_mod)
  then have "dereference 6 8 deref it = Some (Inr (?v, ?it1\<lparr>m_buffer_out_full := True\<rparr>))"
    using assms by (simp add: dereference_def fill_def)
  from std_copy_step[OF eq this, of conv os] show ?thesis
    using assms by (intro exI[of _ "increment (?it1\<lparr>m_buffer_out_full := True\<rparr>)"])
      (simp add: increment_def)
qed

lemma enc_step6:
  assumes "m_remaining_bits it = 6" "\<not> m_end_of_sequence it" "\<not> m_buffer_out_full it"
  shows "\<exists>it'. std_copy 6 8 deref conv it last_it os =
               std_copy 6 8 deref conv it' last_it (os @ [conv (m_buffer_in it mod 64)])
             \<and> base_reference it' = base_reference it \<and> m_remaining_bits it' = 0
             \<and> \<not> m_buffer_out_full it'
             \<and> (m_end_of_sequence it' \<longleftrightarrow> base_reference it = base_reference last_it)"
proof -
  let ?v = "m_buffer_in it mod 64"
  let ?it0 = "it\<lparr>m_end_of_sequence := (base_reference it = base_reference last_it)\<rparr>"
  let ?it1 = "?it0\<lparr>m_buffer_out := ?v, m_remaining_bits := 0\<rparr>"
  have eq: "equal_impl 6 8 it last_it = (False, ?it0)"
    using assms by (simp add: equal_impl_def)
  have "fill_loop 8 deref 6 (?it0\<lparr>m_buffer_out := 0\<rparr>) = Some (Inr ?it1)"
    using assms by (subst fill_loop.simps) (simp add: fill_body_arith)
  then have "dereference 6 8 deref ?it0 = Some (Inr (?v, ?it1\<lparr>m_buffer_out_full := True\<rparr>))"
    using assms by (simp add: dereference_def fill_def)
  from std_copy_step[OF eq this, of conv os] show ?thesis
    using assms by (intro exI[of _ "increment (?it1\<lparr>m_buffer_out_full := True\<rparr>)"])
      (simp add: increment_def)
qed

lemma enc_stop:
  assumes "m_remaining_bits it = 0" "base_reference it = base_reference last_it"
  shows "std_copy 6 8 deref conv it last_it os = Some (Inr os)"
  by (rule std_copy_stop[of _ _ _ _ "it\<lparr>m_end_of_sequence := True\<rparr>"])
     (simp add: equal_impl_def assms)

lemma enc_step2_end:
  assumes "m_remaining_bits it = 2" "\<not> m_buffer_out_full it"
    and "base_reference it = base_reference last_it"
  shows "std_copy 6 8 deref conv it last_it os = Some (Inr (os @ [conv (m_buffer_in it mod 4 * 16)]))"
proof -
  let ?v = "m_buffer_in it mod 4 * 16"
  let ?it0 = "it\<lparr>m_end_of_sequence := True\<rparr>"
  let ?it1 = "?it0\<lparr>m_buffer_in := 0, m_buffer_out := ?v, m_remaining_bits := 0\<rparr>"
  have eq: "equal_impl 6 8 it last_it = (False, ?it0)"
    using assms by (simp add: equal_impl_def)
  have "fill_loop 8 deref 6 (?it0\<lparr>m_buffer_out := 0\<rparr>) = Some (Inr ?it1)"
    using assms
    by (subst fill_loop.simps, simp add: fill_body_arith, subst fill_loop.simps)
       (simp add: fill_body_arith shift_mod)
  then have "dereference 6 8 deref ?it0 = Some (Inr (?v, ?it1\<lparr>m_buffer_out_full := True\<rparr>))"
    using assms by (simp add: dereference_def fill_def)
  from std_copy_step[OF eq this, of conv os] show ?thesis
    using assms by (simp add: enc_stop increment_def)
qed

lemma enc_step4_end:
  assumes "m_remaining_bits it = 4" "\<not> m_buffer_out_full it"
    and "base_reference it = base_reference last_it"
  shows "std_copy 6 8 deref conv it last_it os = Some (Inr (os @ [conv (m_buffer_in it mod 16 * 4)]))"
proof -
  let ?v = "m_buffer_in it mod 16 * 4"
  let ?it0 = "it\<lparr>m_end_of_sequence := True\<rparr>"
  let ?it1 = "?it0\<lparr>m_buffer_in := 0, m_buffer_out := ?v, m_remaining_bits := 0\<rparr>"
  have eq: "equal_impl 6 8 it last_it = (False, ?it0)"
    using assms by (simp add: equal_impl_def)
  have "fill_loop 8 deref 6 (?it0\<lparr>m_buffer_out := 0\<rparr>) = Some (Inr ?it1)"
    using assms
    by (subst fill_loop.simps, simp add: fill_body_arith, subst fill_loop.simps)
       (simp add: fill_body_arith shift_mod)
  then have "dereference 6 8 deref ?it0 = Some (Inr (?v, ?it1\<lparr>m_buffer_out_full := True\<rparr>))"
    using assms by (simp add: dereference_def fill_def)
  from std_copy_step[OF eq this, of conv os] show ?thesis
    using assms by (simp add: enc_stop increment_def)
qed

lemma dec_step0:
  assumes "m_remaining_bits it = 0" "\<not> m_end_of_sequence it" "\<not> m_buffer_out_full it"
    and "base_reference it \<noteq> base_reference last_it"
    and "deref (base_reference it) = Inr v0" "deref (base_reference it + 1) = Inr v1"
  shows "\<exists>it'. std_copy 8 6 deref conv it last_it os =
               std_copy 8 6 deref conv it' last_it (os @ [conv (v0 mod 64 * 4 + v1 div 16 mod 4)])
             \<and> base_reference it' = base_reference it + 2 \<and> m_remaining_bits it' = 4
             \<and> \<not> m_buffer_out_full it' \<and> \<not> m_end_of_sequence it' \<and> m_buffer_in it' = v1"
proof -
  let ?v = "v0 mod 64 * 4 + v1 div 16 mod 4"
  let ?it1 = "it\<lparr>base_reference := base_reference it + 2, m_buffer_in := v1,
                 m_buffer_out := ?v, m_remaining_bits := 4\<rparr>"
  have eq: "equal_impl 8 6 it last_it = (False, it)"
    using assms by (simp add: equal_impl_def)
  have "fill_loop 6 deref 8 (it\<lparr>m_buffer_out := 0\<rparr>) = Some (Inr ?it1)"
    using assms
    by (subst fill_loop.simps, simp add: fill_body_arith, subst fill_loop.simps)
       (simp add: fill_body_arith shift_or_mod)
  then have "dereference 8 6 deref it = Some (Inr (?v, ?it1\<lparr>m_buffer_out_full := True\<rparr>))"
    using assms by (simp add: dereference_def fill_def)
  from std_copy_step[OF eq this, of conv os] show ?thesis
    using assms by (intro exI[of _ "increment (?it1\<lparr>m_buffer_out_full := True\<rparr>)"])
      (simp add: increment_def)
qed

lemma dec_step4:
  assumes "m_remaining_bits it = 4" "\<not> m_end_of_sequence it" "\<not> m_buffer_out_full it"
    and "base_reference it \<noteq> base_reference last_it"
    and "deref (base_reference it) = Inr v"
  shows "\<exists>it'. std_copy 8 6 deref conv it last_it os =
               std_copy 8 6 deref conv it' last_it
                 (os @ [conv (m_buffer_in it mod 16 * 16 + v div 4 mod 16)])
             \<and> base_reference it' = base_reference it + 1 \<and> m_remaining_bits it' = 2
             \<and> \<not> m_buffer_out_full it' \<and> \<not> m_end_of_sequence it' \<and> m_buffer_in it' = v"
proof -
  let ?v = "m_buffer_in it mod 16 * 16 + v div 4 mod 16"
  let ?it1 = "it\<lparr>base_reference := base_reference it + 1, m_buffer_in := v,
                 m_buffer_out := ?v, m_remaining_bits := 2\<rparr>"
  have eq: "equal_impl 8 6 it last_it = (False, it)"
    using assms by (simp add: equal_impl_def)
  have "fill_loop 6 deref 8 (it\<lparr>m_buffer_out := 0\<rparr>) = Some (Inr ?it1)"
    using assms
    by (subst fill_loop.simps, simp add: fill_body_arith, subst fill_loop.simps)
       (simp add: fill_body_arith shift_or_mod)
  then have "dereference 8 6 deref it = Some (Inr (?v, ?it1\<lparr>m_buffer_out_full := True\<rparr>))"
    using assms by (simp add: dereference_def fill_def)
  from std_copy_step[OF eq this, of conv os] show ?thesis
    using assms by (intro exI[of _ "increment (?it1\<lparr>m_buffer_out_full := True\<rparr>)"])
      (simp add: increment_def)
qed

lemma dec_step2:
  assumes "m_remaining_bits it = 2" "\<not> m_end_of_sequence it" "\<not> m_buffer_out_full it"
    and "base_reference it \<noteq> base_reference last_it"
    and "deref (base_reference it) = Inr v"
  shows "\<exists>it'. std_copy 8 6 deref conv it last_it os =
               std_copy 8 6 deref conv it' last_it
                 (os @ [conv (m_buffer_in it mod 4 * 64 + v mod 64)])
             \<and> base_reference it' = base_reference it + 1 \<and> m_remaining_bits it' = 0
             \<and> \<not> m_buffer_out_full it' \<and> \<not> m_end_of_sequence it' \<and> m_buffer_in it' = v"
proof -
  let ?v = "m_buffer_in it mod 4 * 64 + v mod 64"
  let ?it1 = "it\<lparr>base_reference := base_reference it + 1, m_buffer_in := v,
                 m_buffer_out := ?v, m_remaining_bits := 0\<rparr>"
  have eq: "equal_impl 8 6 it last_it = (False, it)"
    using assms by (simp add: equal_impl_def)
  have "fill_loop 6 deref 8 (it\<lparr>m_buffer_out := 0\<rparr>) = Some (Inr ?it1)"
    using assms
    by (subst fill_loop.simps, simp add: fill_body_arith, subst fill_loop.simps)
       (simp add: fill_body_arith shift_or_mod)
  then have "dereference 8 6 deref it = Some (Inr (?v, ?it1\<lparr>m_buffer_out_full := True\<rparr>))"
    using assms by (simp add: dereference_def fill_def)
  from std_copy_step[OF eq this, of conv os] show ?thesis
    using assms by (intro exI[of _ "increment (?it1\<lparr>m_buffer_out_full := True\<rparr>)"])
      (simp add: increment_def)
qed

lemma dec_stop:
  assumes "base_reference it = base_reference last_it"
  shows "std_copy 8 6 deref conv it last_it os = Some (Inr os)"
  by (rule std_copy_stop[of _ _ _ _ it]) (simp add: equal_impl_def assms)


subsection \<open>The alphabet tables\<close>

text \<open>
  \<^const>\<open>to_6_bit\<close> inverts \<^const>\<open>from_6_bit\<close> on the 64 values, and \<open>=\<close> is not in
  the alphabet.  The arithmetic lemmas say that the four 6-bit groups cut from three bytes put
  the three bytes together again.
\<close>

lemma decode_alphabet:
  "list_all (\<lambda>(v, c). to_6_bit c = Inr v) (enumerate 0 base64_alphabet)"
  by (simp add: to_6_bit_def base64_alphabet_def lookup_table_def)

lemma alphabet_no_pad: "CHR ''='' \<notin> set base64_alphabet"
  by (simp add: base64_alphabet_def)

lemma length_alphabet: "length base64_alphabet = 64"
  by (simp add: base64_alphabet_def)

lemma to_6_bit_from_6_bit:
  assumes "v < 64"
  shows "to_6_bit (from_6_bit v) = Inr v"
  using decode_alphabet assms
  by (simp add: list_all_length length_alphabet nth_enumerate_eq from_6_bit_def)

lemma from_6_bit_not_pad:
  assumes "v < 64"
  shows "from_6_bit v \<noteq> CHR ''=''"
proof -
  have "base64_alphabet ! v \<in> set base64_alphabet"
    using assms by (intro nth_mem) (simp add: length_alphabet)
  then show ?thesis
    using alphabet_no_pad by (auto simp: from_6_bit_def)
qed

lemma hi6: "a < 256 \<Longrightarrow> a div 4 mod 64 = a div 4" for a :: nat
  by simp

lemma byte0:
  fixes a r :: nat
  assumes "a < 256" "r < 16"
  shows "(a div 4 mod 64) mod 64 * 4 + (a mod 4 * 16 + r) div 16 mod 4 = a"
proof -
  have "(a mod 4 * 16 + r) div 16 = a mod 4" using assms(2) by simp
  then show ?thesis using assms(1) by (simp add: hi6)
qed

lemma byte1:
  fixes a b r :: nat
  assumes "b < 256" "r < 4"
  shows "(a mod 4 * 16 + b div 16 mod 16) mod 16 * 16 + (b mod 16 * 4 + r) div 4 mod 16 = b"
proof -
  have 1: "(b mod 16 * 4 + r) div 4 = b mod 16" using assms(2) by simp
  have "b div 16 < 16" using assms(1) by simp
  then have 2: "(a mod 4 * 16 + b div 16 mod 16) mod 16 = b div 16" by simp
  show ?thesis unfolding 1 2 by simp
qed

lemma byte2:
  fixes b c :: nat
  assumes "c < 256"
  shows "(b mod 16 * 4 + c div 64 mod 4) mod 4 * 64 + (c mod 64) mod 64 = c"
proof -
  have "c div 64 < 4" using assms(1) by simp
  then have 2: "(b mod 16 * 4 + c div 64 mod 4) mod 4 = c div 64" by simp
  show ?thesis unfolding 2 by simp
qed


subsection \<open>What the copy loops compute\<close>

text \<open>
  By induction on the input, three bytes at a time: the encoding loop returns, and yields
  \<^const>\<open>base64_chars\<close>; the decoding loop, run over \<^const>\<open>base64_chars\<close> of a string
  (followed by anything), returns and yields the string.
\<close>

lemma enc_loop:
  assumes "base_reference it = length pre" "m_remaining_bits it = 0"
    and "\<not> m_buffer_out_full it" "m_end_of_sequence it \<longrightarrow> s = []"
  shows "std_copy 6 8 (\<lambda>i. Inr (of_char (c_str_at (pre @ s) i))) from_6_bit it
           (transform_width_ctor (length pre + length s)) os = Some (Inr (os @ base64_chars s))"
  using assms
proof (induction s arbitrary: pre it os rule: base64_chars.induct)
  case 1
  then show ?case by (simp add: enc_stop transform_width_ctor_def)
next
  case (2 a)
  let ?d = "\<lambda>i. Inr (of_char (c_str_at (pre @ [a]) i)) :: dataflow_exception + nat"
  let ?e = "transform_width_ctor (length pre + length [a])"
  have d0: "?d (base_reference it) = Inr (of_char a)"
    using 2 by (simp add: c_str_at_def)
  obtain it1 where s1: "std_copy 6 8 ?d from_6_bit it ?e os =
        std_copy 6 8 ?d from_6_bit it1 ?e (os @ [from_6_bit (of_char a div 4 mod 64)])"
    and i1: "base_reference it1 = base_reference it + 1" "m_remaining_bits it1 = 2"
      "\<not> m_buffer_out_full it1" "m_buffer_in it1 = of_char a"
    using enc_step0[of it ?e ?d "of_char a" from_6_bit os] 2 d0
    by (auto simp: transform_width_ctor_def)
  show ?case
    using s1 i1 2 enc_step2_end[of it1 ?e ?d from_6_bit]
    by (simp add: transform_width_ctor_def)
next
  case (3 a b)
  let ?d = "\<lambda>i. Inr (of_char (c_str_at (pre @ [a, b]) i)) :: dataflow_exception + nat"
  let ?e = "transform_width_ctor (length pre + length [a, b])"
  have d0: "?d (base_reference it) = Inr (of_char a)"
    and d1: "?d (base_reference it + 1) = Inr (of_char b)"
    using 3 by (simp_all add: c_str_at_def nth_append)
  obtain it1 where s1: "std_copy 6 8 ?d from_6_bit it ?e os =
        std_copy 6 8 ?d from_6_bit it1 ?e (os @ [from_6_bit (of_char a div 4 mod 64)])"
    and i1: "base_reference it1 = base_reference it + 1" "m_remaining_bits it1 = 2"
      "\<not> m_buffer_out_full it1" "\<not> m_end_of_sequence it1" "m_buffer_in it1 = of_char a"
    using enc_step0[of it ?e ?d "of_char a" from_6_bit os] 3 d0
    by (auto simp: transform_width_ctor_def)
  obtain it2 where s2: "std_copy 6 8 ?d from_6_bit it1 ?e (os @ [from_6_bit (of_char a div 4 mod 64)]) =
        std_copy 6 8 ?d from_6_bit it2 ?e (os @ [from_6_bit (of_char a div 4 mod 64)] @
           [from_6_bit (of_char a mod 4 * 16 + of_char b div 16 mod 16)])"
    and i2: "base_reference it2 = base_reference it + 2" "m_remaining_bits it2 = 4"
      "\<not> m_buffer_out_full it2" "m_buffer_in it2 = of_char b"
    using enc_step2[of it1 ?e ?d "of_char b" from_6_bit "os @ [from_6_bit (of_char a div 4 mod 64)]"]
      3 i1 d1
    by (auto simp: transform_width_ctor_def)
  show ?case
    using s1 s2 i2 3 enc_step4_end[of it2 ?e ?d from_6_bit]
    by (simp add: transform_width_ctor_def)
next
  case (4 a b c rest)
  let ?s = "a # b # c # rest"
  let ?d = "\<lambda>i. Inr (of_char (c_str_at (pre @ ?s) i)) :: dataflow_exception + nat"
  let ?e = "transform_width_ctor (length pre + length ?s)"
  let ?o1 = "os @ [from_6_bit (of_char a div 4 mod 64)]"
  let ?o2 = "?o1 @ [from_6_bit (of_char a mod 4 * 16 + of_char b div 16 mod 16)]"
  let ?o3 = "?o2 @ [from_6_bit (of_char b mod 16 * 4 + of_char c div 64 mod 4)]"
  let ?o4 = "?o3 @ [from_6_bit (of_char c mod 64)]"
  have d0: "?d (base_reference it) = Inr (of_char a)"
    and d1: "?d (base_reference it + 1) = Inr (of_char b)"
    and d2: "?d (base_reference it + 2) = Inr (of_char c)"
    using 4 by (simp_all add: c_str_at_def nth_append)
  obtain it1 where s1: "std_copy 6 8 ?d from_6_bit it ?e os = std_copy 6 8 ?d from_6_bit it1 ?e ?o1"
    and i1: "base_reference it1 = base_reference it + 1" "m_remaining_bits it1 = 2"
      "\<not> m_buffer_out_full it1" "\<not> m_end_of_sequence it1" "m_buffer_in it1 = of_char a"
    using enc_step0[of it ?e ?d "of_char a" from_6_bit os] 4(2-) d0
    by (auto simp: transform_width_ctor_def)
  obtain it2 where s2: "std_copy 6 8 ?d from_6_bit it1 ?e ?o1 = std_copy 6 8 ?d from_6_bit it2 ?e ?o2"
    and i2: "base_reference it2 = base_reference it + 2" "m_remaining_bits it2 = 4"
      "\<not> m_buffer_out_full it2" "\<not> m_end_of_sequence it2" "m_buffer_in it2 = of_char b"
    using enc_step2[of it1 ?e ?d "of_char b" from_6_bit ?o1] 4(2-) i1 d1
    by (auto simp: transform_width_ctor_def)
  obtain it3 where s3: "std_copy 6 8 ?d from_6_bit it2 ?e ?o2 = std_copy 6 8 ?d from_6_bit it3 ?e ?o3"
    and i3: "base_reference it3 = base_reference it + 3" "m_remaining_bits it3 = 6"
      "\<not> m_buffer_out_full it3" "\<not> m_end_of_sequence it3" "m_buffer_in it3 = of_char c"
    using enc_step4[of it2 ?e ?d "of_char c" from_6_bit ?o2] 4(2-) i2 d2
    by (auto simp: transform_width_ctor_def)
  obtain it4 where s4: "std_copy 6 8 ?d from_6_bit it3 ?e ?o3 = std_copy 6 8 ?d from_6_bit it4 ?e ?o4"
    and i4: "base_reference it4 = base_reference it + 3" "m_remaining_bits it4 = 0"
      "\<not> m_buffer_out_full it4" "m_end_of_sequence it4 \<longleftrightarrow> rest = []"
    using enc_step6[of it3 ?d from_6_bit ?e ?o3] 4(2-) i3
    by (auto simp: transform_width_ctor_def)
  have "std_copy 6 8 (\<lambda>i. Inr (of_char (c_str_at ((pre @ [a, b, c]) @ rest) i))) from_6_bit it4
          (transform_width_ctor (length (pre @ [a, b, c]) + length rest)) ?o4 =
        Some (Inr (?o4 @ base64_chars rest))"
    using i4 4(2-) by (intro "4.IH") simp_all
  then show ?case
    using s1 s2 s3 s4 by simp
qed

lemma base64_encode_chars:
  "base64_encode s = Some (Inr (base64_chars s @ BASE64_PADDING ! (length s mod 3)))"
proof -
  have "std_copy 6 8 (\<lambda>i. Inr (of_char (c_str_at ([] @ s) i))) from_6_bit (transform_width_ctor 0)
          (transform_width_ctor (length ([]::string) + length s)) [] = Some (Inr ([] @ base64_chars s))"
    by (rule enc_loop) (simp_all add: transform_width_ctor_def)
  then show ?thesis by (simp add: base64_encode_def)
qed

lemma of_char_lt_256: "of_char c < (256::nat)"
proof -
  have "(of_char c :: nat) = of_char c mod 256"
    by (metis of_char_mod_256)
  also have "\<dots> < 256" by simp
  finally show ?thesis .
qed

lemma dec_loop:
  assumes "base_reference it = length pre" "m_remaining_bits it = 0"
    and "\<not> m_buffer_out_full it" "\<not> m_end_of_sequence it"
  shows "std_copy 8 6 (\<lambda>i. to_6_bit (c_str_at (pre @ base64_chars s @ suffix) i)) char_of it
           (transform_width_ctor (length pre + length (base64_chars s))) os = Some (Inr (os @ s))"
  using assms
proof (induction s arbitrary: pre it os rule: base64_chars.induct)
  case 1
  then show ?case by (simp add: dec_stop transform_width_ctor_def)
next
  case (2 a)
  let ?A = "of_char a :: nat"
  let ?t = "pre @ base64_chars [a] @ suffix"
  let ?d = "\<lambda>i. to_6_bit (c_str_at ?t i)"
  let ?e = "transform_width_ctor (length pre + length (base64_chars [a]))"
  have A: "?A < 256" by (rule of_char_lt_256)
  have d0: "?d (base_reference it) = Inr (?A div 4 mod 64)"
    and d1: "?d (base_reference it + 1) = Inr (?A mod 4 * 16)"
    using 2 by (simp_all add: c_str_at_def nth_append to_6_bit_from_6_bit)
  have b0: "char_of ((?A div 4 mod 64) mod 64 * 4 + (?A mod 4 * 16) div 16 mod 4) = a"
    using byte0[OF A, of 0] by simp
  obtain it1 where s1: "std_copy 8 6 ?d char_of it ?e os = std_copy 8 6 ?d char_of it1 ?e (os @ [a])"
    and i1: "base_reference it1 = base_reference it + 2"
    using dec_step0[where it=it and deref="?d" and last_it="?e" and conv=char_of and os=os, OF _ _ _ _ d0 d1] 2 b0
    by (auto simp: transform_width_ctor_def)
  show ?case
    using s1 i1 2 by (simp add: dec_stop transform_width_ctor_def)
next
  case (3 a b)
  let ?A = "of_char a :: nat" and ?B = "of_char b :: nat"
  let ?t = "pre @ base64_chars [a, b] @ suffix"
  let ?d = "\<lambda>i. to_6_bit (c_str_at ?t i)"
  let ?e = "transform_width_ctor (length pre + length (base64_chars [a, b]))"
  have A: "?A < 256" and B: "?B < 256" by (rule of_char_lt_256)+
  have v1: "?A mod 4 * 16 + ?B div 16 mod 16 < 64"
  proof -
    have "?A mod 4 < 4" "?B div 16 mod 16 < 16" by simp_all
    then show ?thesis by linarith
  qed
  have v2: "?B mod 16 * 4 < 64"
  proof -
    have "?B mod 16 < 16" by simp
    then show ?thesis by linarith
  qed
  have d0: "?d (base_reference it) = Inr (?A div 4 mod 64)"
    and d1: "?d (base_reference it + 1) = Inr (?A mod 4 * 16 + ?B div 16 mod 16)"
    and d2: "?d (base_reference it + 2) = Inr (?B mod 16 * 4)"
    using 3 v1 v2 by (simp_all add: c_str_at_def nth_append to_6_bit_from_6_bit)
  have b0: "char_of ((?A div 4 mod 64) mod 64 * 4 + (?A mod 4 * 16 + ?B div 16 mod 16) div 16 mod 4) = a"
    using byte0[OF A, of "?B div 16 mod 16"] by simp
  have b1: "char_of ((?A mod 4 * 16 + ?B div 16 mod 16) mod 16 * 16 + (?B mod 16 * 4) div 4 mod 16) = b"
    using byte1[OF B, of 0 ?A] by simp
  obtain it1 where s1: "std_copy 8 6 ?d char_of it ?e os = std_copy 8 6 ?d char_of it1 ?e (os @ [a])"
    and i1: "base_reference it1 = base_reference it + 2" "m_remaining_bits it1 = 4"
      "\<not> m_buffer_out_full it1" "\<not> m_end_of_sequence it1"
      "m_buffer_in it1 = ?A mod 4 * 16 + ?B div 16 mod 16"
    using dec_step0[where it=it and deref="?d" and last_it="?e" and conv=char_of and os=os, OF _ _ _ _ d0 d1] 3 b0
    by (auto simp: transform_width_ctor_def)
  have d2': "?d (base_reference it1) = Inr (?B mod 16 * 4)" using d2 i1 by simp
  obtain it2 where s2: "std_copy 8 6 ?d char_of it1 ?e (os @ [a]) =
                        std_copy 8 6 ?d char_of it2 ?e ((os @ [a]) @ [b])"
    and i2: "base_reference it2 = base_reference it + 3"
    using dec_step4[where it=it1 and deref="?d" and last_it="?e" and conv=char_of and os="os @ [a]", OF _ _ _ _ d2'] 3 i1 b1
    by (auto simp: transform_width_ctor_def)
  show ?case
    using s1 s2 i2 3 by (simp add: dec_stop transform_width_ctor_def)
next
  case (4 a b c rest)
  let ?A = "of_char a :: nat" and ?B = "of_char b :: nat" and ?C = "of_char c :: nat"
  let ?s = "a # b # c # rest"
  let ?t = "pre @ base64_chars ?s @ suffix"
  let ?d = "\<lambda>i. to_6_bit (c_str_at ?t i)"
  let ?e = "transform_width_ctor (length pre + length (base64_chars ?s))"
  let ?q = "[from_6_bit (?A div 4 mod 64), from_6_bit (?A mod 4 * 16 + ?B div 16 mod 16),
             from_6_bit (?B mod 16 * 4 + ?C div 64 mod 4), from_6_bit (?C mod 64)]"
  have A: "?A < 256" and B: "?B < 256" and C: "?C < 256" by (rule of_char_lt_256)+
  have v1: "?A mod 4 * 16 + ?B div 16 mod 16 < 64"
  proof -
    have "?A mod 4 < 4" "?B div 16 mod 16 < 16" by simp_all
    then show ?thesis by linarith
  qed
  have v2: "?B mod 16 * 4 + ?C div 64 mod 4 < 64"
  proof -
    have "?B mod 16 < 16" "?C div 64 mod 4 < 4" by simp_all
    then show ?thesis by linarith
  qed
  have d0: "?d (base_reference it) = Inr (?A div 4 mod 64)"
    and d1: "?d (base_reference it + 1) = Inr (?A mod 4 * 16 + ?B div 16 mod 16)"
    and d2: "?d (base_reference it + 2) = Inr (?B mod 16 * 4 + ?C div 64 mod 4)"
    and d3: "?d (base_reference it + 3) = Inr (?C mod 64)"
    using 4(2-) v1 v2 by (simp_all add: c_str_at_def nth_append to_6_bit_from_6_bit)
  have b0: "char_of ((?A div 4 mod 64) mod 64 * 4 + (?A mod 4 * 16 + ?B div 16 mod 16) div 16 mod 4) = a"
    using byte0[OF A, of "?B div 16 mod 16"] by simp
  have b1: "char_of ((?A mod 4 * 16 + ?B div 16 mod 16) mod 16 * 16
                     + (?B mod 16 * 4 + ?C div 64 mod 4) div 4 mod 16) = b"
    using byte1[OF B, of "?C div 64 mod 4" ?A] by simp
  have b2: "char_of ((?B mod 16 * 4 + ?C div 64 mod 4) mod 4 * 64 + (?C mod 64) mod 64) = c"
    using byte2[OF C, of ?B] by simp
  obtain it1 where s1: "std_copy 8 6 ?d char_of it ?e os = std_copy 8 6 ?d char_of it1 ?e (os @ [a])"
    and i1: "base_reference it1 = base_reference it + 2" "m_remaining_bits it1 = 4"
      "\<not> m_buffer_out_full it1" "\<not> m_end_of_sequence it1"
      "m_buffer_in it1 = ?A mod 4 * 16 + ?B div 16 mod 16"
    using dec_step0[where it=it and deref="?d" and last_it="?e" and conv=char_of and os=os, OF _ _ _ _ d0 d1] 4(2-) b0
    by (auto simp: transform_width_ctor_def)
  have d2': "?d (base_reference it1) = Inr (?B mod 16 * 4 + ?C div 64 mod 4)" using d2 i1 by simp
  obtain it2 where s2: "std_copy 8 6 ?d char_of it1 ?e (os @ [a]) =
                        std_copy 8 6 ?d char_of it2 ?e ((os @ [a]) @ [b])"
    and i2: "base_reference it2 = base_reference it + 3" "m_remaining_bits it2 = 2"
      "\<not> m_buffer_out_full it2" "\<not> m_end_of_sequence it2"
      "m_buffer_in it2 = ?B mod 16 * 4 + ?C div 64 mod 4"
    using dec_step4[where it=it1 and deref="?d" and last_it="?e" and conv=char_of and os="os @ [a]", OF _ _ _ _ d2'] 4(2-) i1 b1
    by (auto simp: transform_width_ctor_def)
  have d3': "?d (base_reference it2) = Inr (?C mod 64)" using d3 i2 by simp
  obtain it3 where s3: "std_copy 8 6 ?d char_of it2 ?e ((os @ [a]) @ [b]) =
                        std_copy 8 6 ?d char_of it3 ?e (((os @ [a]) @ [b]) @ [c])"
    and i3: "base_reference it3 = base_reference it + 4" "m_remaining_bits it3 = 0"
      "\<not> m_buffer_out_full it3" "\<not> m_end_of_sequence it3"
    using dec_step2[where it=it2 and deref="?d" and last_it="?e" and conv=char_of and os="(os @ [a]) @ [b]", OF _ _ _ _ d3'] 4(2-) i2 b2
    by (auto simp: transform_width_ctor_def)
  have "std_copy 8 6 (\<lambda>i. to_6_bit (c_str_at ((pre @ ?q) @ base64_chars rest @ suffix) i)) char_of it3
          (transform_width_ctor (length (pre @ ?q) + length (base64_chars rest)))
          (((os @ [a]) @ [b]) @ [c]) = Some (Inr ((((os @ [a]) @ [b]) @ [c]) @ rest))"
    using i3 4(2-) by (intro "4.IH") simp_all
  then show ?case
    using s1 s2 s3 by simp
qed


subsection \<open>Removal of the padding\<close>

text \<open>
  As long as the length fits into 32 bits, \<^const>\<open>remove_padding\<close> cuts exactly the trailing
  \<open>=\<close> characters, up to two.  Hence decoding inverts encoding for every string whose encoding
  is shorter than \<open>2 ^ 32\<close> characters.  A length that is a multiple of \<open>2 ^ 32\<close> is seen as 0.
\<close>

lemma size_word_nonzero:
  "n < 2 ^ 32 \<Longrightarrow> (of_nat n :: 32 word) = 0 \<longleftrightarrow> n = 0"
  by (simp add: word_of_nat_eq_0_iff dvd_eq_mod_eq_0)

lemma size_word_pred:
  assumes "n \<noteq> 0"
  shows "(of_nat n :: 32 word) - 1 = of_nat (n - 1)"
  using assms by (cases n) simp_all

lemma unat_size_word: "n < 2 ^ 32 \<Longrightarrow> unat (of_nat n :: 32 word) = n"
  by (simp add: unat_of_nat)

lemma remove_padding_in_range:
  assumes "length s < 2 ^ 32"
  shows "remove_padding s = of_nat (length s - padding_length s)"
proof (cases s rule: rev_cases)
  case Nil
  then show ?thesis by (simp add: remove_padding_def padding_length_def)
next
  case (snoc s1 x)
  have n: "(of_nat (length s) :: 32 word) \<noteq> 0"
    using assms snoc size_word_nonzero[of "length s"] by simp
  have p: "(of_nat (length s) :: 32 word) - 1 = of_nat (length s1)"
    using snoc size_word_pred[of "length s"] by simp
  have u: "unat (of_nat (length s1) :: 32 word) = length s1"
    using assms snoc by (intro unat_size_word) simp
  have x: "c_str_at s (length s1) = x"
    using snoc by (simp add: c_str_at_def)
  show ?thesis
  proof (cases s1 rule: rev_cases)
    case Nil
    then show ?thesis
      using snoc by (simp add: remove_padding_def padding_length_def c_str_at_def)
  next
    case (snoc s2 y)
    have n1: "(of_nat (length s1) :: 32 word) \<noteq> 0"
      using assms \<open>s = s1 @ [x]\<close> snoc size_word_nonzero[of "length s1"] by simp
    have p1: "(of_nat (length s1) :: 32 word) - 1 = of_nat (length s2)"
      using snoc size_word_pred[of "length s1"] by simp
    have u1: "unat (of_nat (length s2) :: 32 word) = length s2"
      using assms \<open>s = s1 @ [x]\<close> snoc by (intro unat_size_word) simp
    have y: "c_str_at s (length s2) = y"
      using \<open>s = s1 @ [x]\<close> snoc by (simp add: c_str_at_def nth_append)
    have "remove_padding s =
            (if x = CHR ''='' then (if y = CHR ''='' then of_nat (length s1) - 1 else of_nat (length s1))
             else of_nat (length s))"
      unfolding remove_padding_def Let_def using n n1
      by (simp only: p p1 u u1 x y) simp
    then show ?thesis
      using \<open>s = s1 @ [x]\<close> snoc p1 by (simp add: padding_length_def butlast_append)
  qed
qed

lemma sextet_bounds:
  fixes a b c :: nat
  shows "a div 4 mod 64 < 64" "a mod 4 * 16 + b div 16 mod 16 < 64" "a mod 4 * 16 < 64"
    "b mod 16 * 4 + c div 64 mod 4 < 64" "b mod 16 * 4 < 64" "c mod 64 < 64"
proof -
  have "a mod 4 < 4" "b div 16 mod 16 < 16" "b mod 16 < 16" "c div 64 mod 4 < 4" by simp_all
  then show "a mod 4 * 16 + b div 16 mod 16 < 64" "a mod 4 * 16 < 64"
    "b mod 16 * 4 + c div 64 mod 4 < 64" "b mod 16 * 4 < 64" by linarith+
qed simp_all

lemma pad_not_from_6_bit: "v < 64 \<Longrightarrow> CHR ''='' \<noteq> from_6_bit v"
  using from_6_bit_not_pad[of v] by auto

lemma chars_no_pad: "CHR ''='' \<notin> set (base64_chars s)"
  by (induction s rule: base64_chars.induct)
     (simp_all add: pad_not_from_6_bit sextet_bounds del: of_char_mod_256)

lemma div3_step: "(3 + n) div 3 = Suc (n div 3)" for n :: nat
  by arith

lemma length_base64_chars:
  "length (base64_chars s) =
     4 * (length s div 3) + (if length s mod 3 = 0 then 0 else length s mod 3 + 1)"
  by (induction s rule: base64_chars.induct) (simp_all add: div3_step)

lemma last_chars_no_pad: "base64_chars s = [] \<or> last (base64_chars s) \<noteq> CHR ''=''"
  using chars_no_pad[of s] last_in_set[of "base64_chars s"] by metis

lemma padding_length_chars:
  "padding_length (base64_chars s @ BASE64_PADDING ! (length s mod 3)) = length (BASE64_PADDING ! (length s mod 3))"
proof -
  have "length s mod 3 = 0 \<or> length s mod 3 = 1 \<or> length s mod 3 = 2" by arith
  then show ?thesis
    using last_chars_no_pad[of s]
    by (auto simp: padding_length_def BASE64_PADDING_def butlast_append)
qed

lemma base64_decode_chars:
  assumes "length (base64_chars s @ BASE64_PADDING ! (length s mod 3)) < 2 ^ 32"
  shows "base64_decode (base64_chars s @ BASE64_PADDING ! (length s mod 3)) = Some (Inr s)"
proof -
  let ?p = "BASE64_PADDING ! (length s mod 3)"
  let ?t = "base64_chars s @ ?p"
  have r: "remove_padding ?t = of_nat (length (base64_chars s))"
    using remove_padding_in_range[OF assms] by (simp add: padding_length_chars)
  have u: "unat (of_nat (length (base64_chars s)) :: 32 word) = length (base64_chars s)"
    using assms by (intro unat_size_word) simp
  show ?thesis
  proof (cases "s = []")
    case True
    then show ?thesis by (simp add: base64_decode_def remove_padding_def BASE64_PADDING_def)
  next
    case False
    then have "base64_chars s \<noteq> []"
      by (cases s rule: base64_chars.cases) simp_all
    then have nz: "(of_nat (length (base64_chars s)) :: 32 word) \<noteq> 0"
      using u by (metis length_0_conv unat_0)
    have "std_copy 8 6 (\<lambda>i. to_6_bit (c_str_at ([] @ base64_chars s @ ?p) i)) char_of
            (transform_width_ctor 0)
            (transform_width_ctor (length ([]::string) + length (base64_chars s))) [] = Some (Inr ([] @ s))"
      by (rule dec_loop) (simp_all add: transform_width_ctor_def)
    then show ?thesis
      using nz by (simp add: base64_decode_def r u)
  qed
qed

lemma length_encoded:
  "length (base64_chars s @ BASE64_PADDING ! (length s mod 3)) = 4 * ((length s + 2) div 3)"
proof -
  define n where "n = length s"
  consider "n mod 3 = 0" | "n mod 3 = 1" | "n mod 3 = 2" by arith
  then show ?thesis
  proof cases
    case 1
    then have "(n + 2) div 3 = n div 3" by arith
    then show ?thesis using 1 by (simp add: length_base64_chars BASE64_PADDING_def flip: n_def)
  next
    case 2
    then have "(n + 2) div 3 = n div 3 + 1" by arith
    then show ?thesis using 2 by (simp add: length_base64_chars BASE64_PADDING_def flip: n_def)
  next
    case 3
    then have "(n + 2) div 3 = n div 3 + 1" by arith
    then show ?thesis using 3 by (simp add: length_base64_chars BASE64_PADDING_def flip: n_def)
  qed
qed

lemma base64_roundtrip_in_range:
  assumes "4 * ((length s + 2) div 3) < 2 ^ 32"
  shows "\<exists>e. base64_encode s = Some (Inr e) \<and> base64_decode e = Some (Inr s)"
proof -
  have "length (base64_chars s @ BASE64_PADDING ! (length s mod 3)) < 2 ^ 32"
    using assms by (simp only: length_encoded)
  then have "base64_decode (base64_chars s @ BASE64_PADDING ! (length s mod 3)) = Some (Inr s)"
    by (rule base64_decode_chars)
  then show ?thesis
    by (simp only: base64_encode_chars) blast
qed

lemma decode_size_wraps:
  assumes "length t mod 2 ^ 32 = 0"
  shows "base64_decode t = Some (Inr [])"
proof -
  have "(of_nat (length t) :: 32 word) = 0"
    using assms by (simp add: word_of_nat_eq_0_iff dvd_eq_mod_eq_0)
  then show ?thesis by (simp add: base64_decode_def remove_padding_def)
qed

lemma unat_remove_padding:
  fixes s :: string
  defines "n \<equiv> unat (of_nat (length s) :: 32 word)"
  shows "unat (remove_padding s) =
     (if n \<noteq> 0 \<and> c_str_at s (n - 1) = CHR ''=''
      then (if n - 1 \<noteq> 0 \<and> c_str_at s (n - 1 - 1) = CHR ''='' then n - 1 - 1 else n - 1)
      else n)"
proof -
  define w where "w = (of_nat (length s) :: 32 word)"
  have n: "unat w = n" by (simp add: n_def w_def)
  have z: "w = 0 \<longleftrightarrow> n = 0" using n by (metis unat_eq_0)
  have 1: "unat (w - 1) = n - 1" if "w \<noteq> 0"
    using unat_minus_one[OF that] n by simp
  have z1: "w - 1 = 0 \<longleftrightarrow> n - 1 = 0" if "w \<noteq> 0"
    using 1[OF that] by (metis unat_eq_0)
  have 2: "unat (w - 1 - 1) = n - 1 - 1" if "w \<noteq> 0" "w - 1 \<noteq> 0"
    using unat_minus_one[OF that(2)] 1[OF that(1)] by simp
  show ?thesis
  proof (cases "w = 0")
    case True
    then show ?thesis
      using z by (simp add: remove_padding_def w_def[symmetric])
  next
    case False
    note nz = this
    show ?thesis
    proof (cases "c_str_at s (n - 1) = CHR ''=''")
      case False
      then show ?thesis
        using nz z 1 n by (simp add: remove_padding_def w_def[symmetric] Let_def)
    next
      case True
      note e1 = this
      show ?thesis
      proof (cases "w - 1 = 0")
        case True
        then show ?thesis
          using nz e1 z z1 1 by (simp add: remove_padding_def w_def[symmetric] Let_def)
      next
        case False
        then show ?thesis
          using nz e1 z z1 1 2 by (simp add: remove_padding_def w_def[symmetric] Let_def)
      qed
    qed
  qed
qed

lemma strip_bounds:
  fixes n :: nat
  assumes "n \<le> length s"
  defines "r \<equiv> (if n \<noteq> 0 \<and> c_str_at s (n - 1) = CHR ''=''
      then (if n - 1 \<noteq> 0 \<and> c_str_at s (n - 1 - 1) = CHR ''='' then n - 1 - 1 else n - 1)
      else n)"
  shows "r \<le> n" and "n \<le> r + 2" and "r \<le> i \<Longrightarrow> i < n \<Longrightarrow> s ! i = CHR ''=''"
proof -
  have c: "c_str_at s k = s ! k" if "k < n" for k
    using that assms(1) by (simp add: c_str_at_def)
  show "r \<le> n" by (simp add: r_def)
  show "n \<le> r + 2" unfolding r_def by (simp split: if_splits) linarith?
  show "s ! i = CHR ''=''" if "r \<le> i" "i < n"
  proof (cases "n \<noteq> 0 \<and> c_str_at s (n - 1) = CHR ''=''")
    case False
    then have "r = n" unfolding r_def by (rule if_not_P)
    then show ?thesis using that by simp
  next
    case True
    note outer = this
    show ?thesis
    proof (cases "n - 1 \<noteq> 0 \<and> c_str_at s (n - 1 - 1) = CHR ''=''")
      case False
      have "r = n - 1" unfolding r_def by (simp only: if_P[OF outer] if_not_P[OF False])
      then have "i = n - 1" using that by simp
      then show ?thesis using outer c[of "n - 1"] that by simp
    next
      case True
      have "r = n - 1 - 1" unfolding r_def by (simp only: if_P[OF outer] if_P[OF True])
      then have "i = n - 1 \<or> i = n - 1 - 1" using that by auto
      then show ?thesis using outer True c[of "n - 1"] c[of "n - 1 - 1"] that by auto
    qed
  qed
qed

lemma unat_size: "unat (of_nat (length s) :: 32 word) = length s mod 2 ^ 32"
  by (simp add: unat_of_nat)

lemma remove_padding_bounds:
  "unat (remove_padding s) \<le> length s mod 2 ^ 32"
  "length s mod 2 ^ 32 \<le> unat (remove_padding s) + 2"
  "unat (remove_padding s) \<le> i \<Longrightarrow> i < length s mod 2 ^ 32 \<Longrightarrow> s ! i = CHR ''=''"
proof -
  define n where "n = unat (of_nat (length s) :: 32 word)"
  have n: "length s mod 2 ^ 32 = n" by (simp only: n_def unat_size)
  have "n \<le> length s" unfolding n[symmetric] by (rule mod_less_eq_dividend)
  note B = strip_bounds[OF this, folded unat_remove_padding[of s, folded n_def]]
  show "unat (remove_padding s) \<le> length s mod 2 ^ 32"
    unfolding n by (rule B)
  show "length s mod 2 ^ 32 \<le> unat (remove_padding s) + 2"
    unfolding n by (rule B)
  show "unat (remove_padding s) \<le> i \<Longrightarrow> i < length s mod 2 ^ 32 \<Longrightarrow> s ! i = CHR ''=''"
    unfolding n by (rule B)
qed

lemma decode_no_input: "remove_padding s = 0 \<Longrightarrow> base64_decode s = Some (Inr [])"
  by (simp add: base64_decode_def)

lemma remove_padding_short:
  "remove_padding [] = 0" "remove_padding ''='' = 0" "remove_padding ''=='' = 0"
  by (simp_all add: remove_padding_def c_str_at_def)

lemma unat_remove_padding_in_range:
  assumes "length s < 2 ^ 32"
  shows "unat (remove_padding s) = length s - padding_length s"
proof -
  have "length s - padding_length s \<le> length s" by simp
  then have "length s - padding_length s < 2 ^ 32" using assms by (rule le_less_trans)
  then show ?thesis
    by (simp only: remove_padding_in_range[OF assms] unat_size_word)
qed


subsection \<open>Agreement with RFC 4648\<close>

text \<open>
  The table of \<^const>\<open>from_6_bit\<close> is the alphabet of the RFC, and the groups the iterator
  assembles are the 6-bit groups of the RFC's 24-bit (or padded 12-bit and 18-bit) quantum.
\<close>

lemma alphabet_codes:
  "list_all (\<lambda>(v, c). (of_char c :: nat) = of_char (rfc4648_alphabet v))
     (enumerate 0 base64_alphabet)"
  by (simp add: base64_alphabet_def rfc4648_alphabet_def del: of_char_eq_iff)

lemma from_6_bit_rfc4648:
  assumes "v < 64"
  shows "rfc4648_alphabet v = from_6_bit v"
proof -
  have "(of_char (from_6_bit v) :: nat) = of_char (rfc4648_alphabet v)"
    using alphabet_codes assms
    by (simp add: list_all_length length_alphabet nth_enumerate_eq from_6_bit_def)
  then show ?thesis by simp
qed

lemma digit_div: "d < 64 \<Longrightarrow> (x * 64 + d) div 64 = x" for d x :: nat
  by simp

lemma digit_mod: "d < 64 \<Longrightarrow> (x * 64 + d) mod 64 = d" for d x :: nat
  by simp

lemma base64_digits:
  fixes d0 d1 d2 d3 :: nat
  assumes "d1 < 64" "d2 < 64" "d3 < 64"
  defines "q \<equiv> ((d0 * 64 + d1) * 64 + d2) * 64 + d3"
  shows "q div 262144 = d0" "q div 4096 mod 64 = d1" "q div 64 mod 64 = d2" "q mod 64 = d3"
proof -
  have 3: "q div 64 = (d0 * 64 + d1) * 64 + d2" "q mod 64 = d3"
    unfolding q_def using assms(3) by (simp_all only: digit_div digit_mod)
  have 2: "q div 64 div 64 = d0 * 64 + d1" "q div 64 mod 64 = d2"
    unfolding 3 using assms(2) by (simp_all only: digit_div digit_mod)
  have 1: "q div 64 div 64 div 64 = d0" "q div 64 div 64 mod 64 = d1"
    unfolding 2 using assms(1) by (simp_all only: digit_div digit_mod)
  have "q div 262144 = q div 64 div 64 div 64" "q div 4096 = q div 64 div 64"
    by (simp_all add: div_mult2_eq[symmetric])
  then show "q div 262144 = d0" "q div 4096 mod 64 = d1" using 1 by simp_all
  show "q div 64 mod 64 = d2" by (rule 2)
  show "q mod 64 = d3" by (rule 3)
qed

lemma regroup24:
  fixes a1 a0 b1 b0 c1 c0 :: nat
  shows "(a1 * 4 + a0) * 65536 + (b1 * 16 + b0) * 256 + (c1 * 64 + c0) =
         ((a1 * 64 + (a0 * 16 + b1)) * 64 + (b0 * 4 + c1)) * 64 + c0"
  by (simp add: algebra_simps)

lemma group24:
  fixes a b c :: nat
  defines "q \<equiv> a * 65536 + b * 256 + c"
  assumes "a < 256" "b < 256" "c < 256"
  shows "q div 262144 mod 64 = a div 4 mod 64"
    and "q div 4096 mod 64 = a mod 4 * 16 + b div 16 mod 16"
    and "q div 64 mod 64 = b mod 16 * 4 + c div 64 mod 4"
    and "q mod 64 = c mod 64"
proof -
  have b: "b div 16 mod 16 = b div 16" and c: "c div 64 mod 4 = c div 64"
    using assms by simp_all
  have q: "q = ((a div 4 * 64 + (a mod 4 * 16 + b div 16)) * 64 + (b mod 16 * 4 + c div 64)) * 64 + c mod 64"
    unfolding q_def
    using regroup24[of "a div 4" "a mod 4" "b div 16" "b mod 16" "c div 64" "c mod 64"]
    by (simp only: div_mult_mod_eq)
  have d1: "a mod 4 * 16 + b div 16 < 64" using sextet_bounds(2)[of a b] b by simp
  have d2: "b mod 16 * 4 + c div 64 < 64" using sextet_bounds(4)[of b c] c by simp
  have d3: "c mod 64 < 64" by simp
  note D = base64_digits[OF d1 d2 d3, of "a div 4", folded q]
  show "q div 262144 mod 64 = a div 4 mod 64" by (simp only: D)
  show "q div 4096 mod 64 = a mod 4 * 16 + b div 16 mod 16" by (simp only: D b)
  show "q div 64 mod 64 = b mod 16 * 4 + c div 64 mod 4" by (simp only: D c)
  show "q mod 64 = c mod 64" by (simp only: D)
qed

lemma regroup16:
  fixes a1 a0 b1 b0 :: nat
  shows "((a1 * 4 + a0) * 256 + (b1 * 16 + b0)) * 4 =
         ((0 * 64 + a1) * 64 + (a0 * 16 + b1)) * 64 + b0 * 4"
  by (simp add: algebra_simps)

lemma group16:
  fixes a b :: nat
  defines "q \<equiv> (a * 256 + b) * 4"
  assumes "a < 256" "b < 256"
  shows "q div 4096 mod 64 = a div 4 mod 64"
    and "q div 64 mod 64 = a mod 4 * 16 + b div 16 mod 16"
    and "q mod 64 = b mod 16 * 4"
proof -
  have b: "b div 16 mod 16 = b div 16" and a: "a div 4 mod 64 = a div 4"
    using assms by simp_all
  have q: "q = ((0 * 64 + a div 4) * 64 + (a mod 4 * 16 + b div 16)) * 64 + b mod 16 * 4"
    unfolding q_def
    using regroup16[of "a div 4" "a mod 4" "b div 16" "b mod 16"]
    by (simp only: div_mult_mod_eq)
  have d1: "a div 4 < 64" using assms by simp
  have d2: "a mod 4 * 16 + b div 16 < 64" using sextet_bounds(2)[of a b] b by simp
  have d3: "b mod 16 * 4 < 64" by (rule sextet_bounds)
  note D = base64_digits[OF d1 d2 d3, of 0, folded q]
  show "q div 4096 mod 64 = a div 4 mod 64" by (simp only: D a)
  show "q div 64 mod 64 = a mod 4 * 16 + b div 16 mod 16" by (simp only: D b)
  show "q mod 64 = b mod 16 * 4" by (simp only: D)
qed

lemma regroup8:
  fixes a1 a0 :: nat
  shows "(a1 * 4 + a0) * 16 = ((0 * 64 + 0) * 64 + a1) * 64 + a0 * 16"
  by (simp add: algebra_simps)

lemma group8:
  fixes a :: nat
  defines "q \<equiv> a * 16"
  assumes "a < 256"
  shows "q div 64 mod 64 = a div 4 mod 64" and "q mod 64 = a mod 4 * 16"
proof -
  have a: "a div 4 mod 64 = a div 4"
    using assms by simp
  have q: "q = ((0 * 64 + 0) * 64 + a div 4) * 64 + a mod 4 * 16"
    unfolding q_def
    using regroup8[of "a div 4" "a mod 4"]
    by (simp only: div_mult_mod_eq)
  have d1: "(0::nat) < 64" by simp
  have d2: "a div 4 < 64" using assms by simp
  have d3: "a mod 4 * 16 < 64" by (rule sextet_bounds)
  note D = base64_digits[OF d1 d2 d3, of 0, folded q]
  show "q div 64 mod 64 = a div 4 mod 64" by (simp only: D a)
  show "q mod 64 = a mod 4 * 16" by (simp only: D)
qed

lemma rfc4648_encode_chars:
  "rfc4648_encode s = base64_chars s @ BASE64_PADDING ! (length s mod 3)"
proof (induction s rule: base64_chars.induct)
  case 1
  show ?case by (simp add: BASE64_PADDING_def)
next
  case (2 a)
  have A: "of_char a < (256::nat)" by (rule of_char_lt_256)
  have "rfc4648_encode [a] = base64_chars [a] @ ''==''"
    unfolding rfc4648_encode.simps base64_chars.simps Let_def
    by (simp only: group8[OF A] from_6_bit_rfc4648 sextet_bounds) simp
  then show ?case by (simp add: BASE64_PADDING_def)
next
  case (3 a b)
  have A: "of_char a < (256::nat)" and B: "of_char b < (256::nat)" by (rule of_char_lt_256)+
  have "rfc4648_encode [a, b] = base64_chars [a, b] @ ''=''"
    unfolding rfc4648_encode.simps base64_chars.simps Let_def
    by (simp only: group16[OF A B] from_6_bit_rfc4648 sextet_bounds) simp
  then show ?case by (simp add: BASE64_PADDING_def)
next
  case (4 a b c rest)
  have A: "of_char a < (256::nat)" and B: "of_char b < (256::nat)" and C: "of_char c < (256::nat)"
    by (rule of_char_lt_256)+
  have m: "length (a # b # c # rest) mod 3 = length rest mod 3" by simp
  have "rfc4648_encode (a # b # c # rest) =
        [from_6_bit (of_char a div 4 mod 64),
         from_6_bit (of_char a mod 4 * 16 + of_char b div 16 mod 16),
         from_6_bit (of_char b mod 16 * 4 + of_char c div 64 mod 4),
         from_6_bit (of_char c mod 64)] @ rfc4648_encode rest"
    unfolding rfc4648_encode.simps Let_def
    by (simp only: group24[OF A B C] from_6_bit_rfc4648 sextet_bounds)
  then show ?case
    unfolding m using 4 by simp
qed


subsection \<open>Properties of the codec\<close>

text \<open>
  C1 (the code departs from the claim).  The claim: decoding the encoding of any string returns
  the string.  It holds whenever the encoding is shorter than \<open>2 ^ 32\<close> characters
  (\<open>base64_roundtrip_in_range\<close> above).  A string of \<open>3 * 2 ^ 30\<close> bytes has an encoding of
  exactly \<open>2 ^ 32\<close> characters; the decoder's \<^verbatim>\<open>unsigned int size\<close> is then 0 and the
  decoder returns the empty string.
\<close>

theorem base64_roundtrip_size_wraps:
  "\<exists>e. base64_encode (replicate 3221225472 CHR ''a'') = Some (Inr e) \<and> length e = 4294967296
       \<and> base64_decode e = Some (Inr [])"
proof -
  define s where "s = replicate 3221225472 CHR ''a''"
  define e where "e = base64_chars s @ BASE64_PADDING ! (length s mod 3)"
  have n: "length s = 3221225472" by (simp add: s_def)
  have "length e = 4 * ((length s + 2) div 3)"
    unfolding e_def by (rule length_encoded)
  then have l: "length e = 4294967296"
    by (simp add: n)
  then have "base64_decode e = Some (Inr [])"
    by (intro decode_size_wraps) simp
  moreover have "base64_encode s = Some (Inr e)"
    unfolding e_def by (rule base64_encode_chars)
  ultimately show ?thesis using l unfolding s_def by blast
qed


text \<open>
  C5.  For every string, \<open>base64_encode\<close> returns the RFC 4648 base64 encoding with \<open>=\<close>
  padding.  The result is a body free of \<open>=\<close> followed by the entry of the padding table at
  index \<open>length mod 3\<close>, and that table is empty, \<open>==\<close>, \<open>=\<close> at indices 0, 1, 2.
\<close>

theorem base64_encode_rfc4648:
  "base64_encode s = Some (Inr (rfc4648_encode s))
   \<and> (\<exists>body. CHR ''='' \<notin> set body
         \<and> base64_encode s = Some (Inr (body @ BASE64_PADDING ! (length s mod 3))))
   \<and> BASE64_PADDING ! 0 = [] \<and> BASE64_PADDING ! 1 = ''=='' \<and> BASE64_PADDING ! 2 = ''=''"
proof (intro conjI)
  show "base64_encode s = Some (Inr (rfc4648_encode s))"
    by (simp only: base64_encode_chars rfc4648_encode_chars)
  show "\<exists>body. CHR ''='' \<notin> set body
         \<and> base64_encode s = Some (Inr (body @ BASE64_PADDING ! (length s mod 3)))"
    using chars_no_pad[of s] base64_encode_chars[of s] by blast
qed (simp_all add: BASE64_PADDING_def)

theorem base64_encode_rfc4648_witness:
  "base64_encode [] = Some (Inr []) \<and> base64_encode ''M'' = Some (Inr ''TQ=='')
   \<and> base64_encode ''Ma'' = Some (Inr ''TWE='') \<and> base64_encode ''Man'' = Some (Inr ''TWFu'')"
  using base64_encode_rfc4648[of "[]"] base64_encode_rfc4648[of "''M''"]
    base64_encode_rfc4648[of "''Ma''"] base64_encode_rfc4648[of "''Man''"]
  by (simp add: rfc4648_encode_chars from_6_bit_def base64_alphabet_def BASE64_PADDING_def
      del: rfc4648_encode.simps)


lemma base64_decode_strips_padding:
  "unat (remove_padding s) \<le> length s mod 2 ^ 32
   \<and> length s mod 2 ^ 32 \<le> unat (remove_padding s) + 2
   \<and> (\<forall>i. unat (remove_padding s) \<le> i \<and> i < length s mod 2 ^ 32 \<longrightarrow> s ! i = CHR ''='')
   \<and> (length s < 2 ^ 32 \<longrightarrow> unat (remove_padding s) = length s - padding_length s)
   \<and> (remove_padding s = 0 \<longrightarrow> base64_decode s = Some (Inr []))
   \<and> (s = [] \<or> s = ''='' \<or> s = ''=='' \<longrightarrow>
        remove_padding s = 0 \<and> base64_decode s = Some (Inr []))"
proof (intro conjI allI impI)
  show "unat (remove_padding s) \<le> length s mod 2 ^ 32" by (rule remove_padding_bounds)
  show "length s mod 2 ^ 32 \<le> unat (remove_padding s) + 2" by (rule remove_padding_bounds)
  show "s ! i = CHR ''=''" if "unat (remove_padding s) \<le> i \<and> i < length s mod 2 ^ 32" for i
    using that remove_padding_bounds(3)[of s i] by blast
  show "unat (remove_padding s) = length s - padding_length s" if "length s < 2 ^ 32"
    using that by (rule unat_remove_padding_in_range)
  show "base64_decode s = Some (Inr [])" if "remove_padding s = 0"
    using that by (rule decode_no_input)
  show z: "remove_padding s = 0" if "s = [] \<or> s = ''='' \<or> s = ''==''"
    using that remove_padding_short by blast
  show "base64_decode s = Some (Inr [])" if "s = [] \<or> s = ''='' \<or> s = ''==''"
    using z[OF that] by (rule decode_no_input)
qed

text \<open>
  What is decoded is the input without the stripped characters: an encoding decodes to the
  encoded string with its padding and without it.
\<close>

lemma base64_decode_with_and_without_padding:
  assumes "4 * ((length t + 2) div 3) < 2 ^ 32"
  shows "base64_decode (base64_chars t @ BASE64_PADDING ! (length t mod 3)) = Some (Inr t)"
    and "base64_decode (base64_chars t) = Some (Inr t)"
proof -
  have l: "length (base64_chars t @ BASE64_PADDING ! (length t mod 3)) < 2 ^ 32"
    using assms by (simp only: length_encoded)
  then show "base64_decode (base64_chars t @ BASE64_PADDING ! (length t mod 3)) = Some (Inr t)"
    by (rule base64_decode_chars)
  have l': "length (base64_chars t) < 2 ^ 32"
    using l by simp
  have "padding_length (base64_chars t) = 0"
    using last_chars_no_pad[of t] by (auto simp: padding_length_def)
  then have r: "remove_padding (base64_chars t) = of_nat (length (base64_chars t))"
    using remove_padding_in_range[OF l'] by simp
  have u: "unat (of_nat (length (base64_chars t)) :: 32 word) = length (base64_chars t)"
    using l' by (rule unat_size_word)
  show "base64_decode (base64_chars t) = Some (Inr t)"
  proof (cases "t = []")
    case True
    then show ?thesis by (simp add: base64_decode_def remove_padding_def)
  next
    case False
    then have "base64_chars t \<noteq> []"
      by (cases t rule: base64_chars.cases) simp_all
    then have nz: "(of_nat (length (base64_chars t)) :: 32 word) \<noteq> 0"
      using u by (metis length_0_conv unat_0)
    have "std_copy 8 6 (\<lambda>i. to_6_bit (c_str_at ([] @ base64_chars t @ []) i)) char_of
            (transform_width_ctor 0)
            (transform_width_ctor (length ([]::string) + length (base64_chars t))) [] = Some (Inr ([] @ t))"
      by (rule dec_loop) (simp_all add: transform_width_ctor_def)
    then show ?thesis
      using nz by (simp add: base64_decode_def r u)
  qed
qed

text \<open>
  C6 (the code departs from the claim).  The claim: for every input, \<open>base64_decode\<close> strips at
  most two trailing \<open>=\<close> characters before decoding, and returns the empty string when
  nothing is left.  For inputs shorter than \<open>2 ^ 32\<close> characters this is what happens
  (\<open>base64_decode_strips_padding\<close>, \<open>base64_decode_with_and_without_padding\<close>).  An input
  of \<open>2 ^ 32\<close> characters \<open>A\<close> has no \<open>=\<close> to strip, yet the 32-bit
  \<^verbatim>\<open>unsigned int size\<close> is 0 for it: all of it is dropped and the empty string is
  returned.
\<close>

theorem base64_decode_drops_unpadded_input:
  "CHR ''='' \<notin> set (replicate 4294967296 CHR ''A'')
   \<and> padding_length (replicate 4294967296 CHR ''A'') = 0
   \<and> length (replicate 4294967296 CHR ''A'') = 4294967296
   \<and> remove_padding (replicate 4294967296 CHR ''A'') = 0
   \<and> base64_decode (replicate 4294967296 CHR ''A'') = Some (Inr [])"
proof -
  define s where "s = replicate 4294967296 CHR ''A''"
  have n: "length s = 4294967296" by (simp add: s_def)
  have ne: "s \<noteq> []" using n by (cases s) simp_all
  have 1: "CHR ''='' \<notin> set s" by (simp add: s_def)
  then have "last s \<noteq> CHR ''=''" using ne last_in_set[of s] by metis
  then have 2: "padding_length s = 0" by (simp add: padding_length_def)
  have w: "(of_nat (length s) :: 32 word) = 0"
    by (simp add: n)
  then have 3: "remove_padding s = 0" by (simp add: remove_padding_def)
  then have 4: "base64_decode s = Some (Inr [])" by (rule decode_no_input)
  show ?thesis using 1 2 n 3 4 unfolding s_def by blast
qed



subsection \<open>Properties of the submission operations\<close>

lemmas Handle_defs =
  Let_def Handle_ctor_def Handle_method_def Handle_url_def Handle_header_def Handle_post_data_def
  Handle_on_read_data_def Handle_set_option_def Handle_http_credentials_def

lemmas submission_defs = Client_head_def Client_get_def Client_post_def Client_put_def

lemma example_accepted:
  "c_str (uri example_Configuration) \<noteq> [] \<and> (\<lambda>u. True) (c_str (uri example_Configuration))"
  by (simp add: example_Configuration_def default_Configuration_def c_str_def)

text \<open>
  C2 (the code departs from the claim).  The claim: every invocation of the read callback that
  \<open>put\<close> installs reads no more than what remains of the declared size, and no more than the
  destination buffer holds.  The callback asks the stream for \<open>size\<close> bytes at every invocation
  and ignores the capacity \<open>in_size * nmemb\<close> of the destination: with \<open>size = 3\<close>, a
  destination of one byte and six bytes available, the first invocation stores three bytes and
  the second another three.
\<close>

theorem put_read_callback_exceeds_limits:
  "(case fst (Client_put (\<lambda>u. True) Client_ctor example_Configuration 3) of
      Inl e \<Rightarrow> None
    | Inr req \<Rightarrow>
        (case h_body (r_handle req) of
           stream cb sz \<Rightarrow>
             (case cb 1 1 \<lparr>in_avail = ''abcdef''\<rparr> of
                ((dest1, n1), payload1) \<Rightarrow>
                  (case cb 1 1 payload1 of
                     ((dest2, n2), payload2) \<Rightarrow> Some (sz, dest1, n1, dest2, n2)))
         | _ \<Rightarrow> None))
   = Some (3, ''abc'', 3, ''def'', 3)"
  by (simp add: Client_put_def Handle_defs Request_ctor_def on_read_data_lambda_def readsome_def
      example_Configuration_def default_Configuration_def c_str_def)

text \<open>
  C3 (as stated, refuted by the counterexample below; amended).  When the configuration
  carries an authentication handler and the URL handed to the handle is accepted, every
  submission operation calls the handler with the configured URI.  If the handler yields
  credentials, they are attached to the handle of the request that is returned.  If the handler
  raises, the exception it raised leaves the submission call unchanged, no request is created
  and the client, with its multiplexer, is as it was before the call.
\<close>

theorem authentication_handler_applied:
  assumes "authentication_handler_for_http cfg = Some for_http"
    and "c_str (uri cfg) \<noteq> [] \<and> wfu (c_str (uri cfg))"
  shows "case for_http (uri cfg) of
           Inl e \<Rightarrow>
             Client_head wfu c cfg = (Inl e, c) \<and> Client_get wfu c cfg = (Inl e, c)
             \<and> Client_post wfu c cfg payload ct = (Inl e, c)
             \<and> Client_put wfu c cfg sz = (Inl e, c)
         | Inr cr \<Rightarrow>
             (\<exists>req. Client_head wfu c cfg = (Inr req, registered c (r_handle req))
                    \<and> h_credentials (r_handle req) = Some cr)
             \<and> (\<exists>req. Client_get wfu c cfg = (Inr req, registered c (r_handle req))
                    \<and> h_credentials (r_handle req) = Some cr)
             \<and> (\<exists>req. Client_post wfu c cfg payload ct = (Inr req, registered c (r_handle req))
                    \<and> h_credentials (r_handle req) = Some cr)
             \<and> (\<exists>req. Client_put wfu c cfg sz = (Inr req, registered c (r_handle req))
                    \<and> h_credentials (r_handle req) = Some cr)"
  using assms
  by (cases "for_http (uri cfg)")
     (simp_all add: submission_defs Handle_defs Request_ctor_def registered_def)

theorem authentication_handler_applied_witness:
  "(\<exists>req. Client_get (\<lambda>u. True) Client_ctor
             (example_Configuration\<lparr>authentication_handler_for_http :=
                 Some (\<lambda>u. Inr \<lparr>username = ''user'', password = ''secret''\<rparr>)\<rparr>)
           = (Inr req, registered Client_ctor (r_handle req))
          \<and> h_credentials (r_handle req) = Some \<lparr>username = ''user'', password = ''secret''\<rparr>)
   \<and> Client_get (\<lambda>u. True) Client_ctor
        (example_Configuration\<lparr>authentication_handler_for_http :=
            Some (\<lambda>u. Inl (runtime_error ''denied''))\<rparr>)
      = (Inl (runtime_error ''denied''), Client_ctor)"
proof -
  let ?ok = "\<lambda>u::string. Inr \<lparr>username = ''user'', password = ''secret''\<rparr> :: exn + credentials"
  let ?bad = "\<lambda>u::string. Inl (runtime_error ''denied'') :: exn + credentials"
  have a: "c_str (uri (example_Configuration\<lparr>authentication_handler_for_http := Some h\<rparr>)) \<noteq> []
           \<and> (\<lambda>u. True)
                (c_str (uri (example_Configuration\<lparr>authentication_handler_for_http := Some h\<rparr>)))"
    for h
    using example_accepted by simp
  show ?thesis
    using authentication_handler_applied
            [of "example_Configuration\<lparr>authentication_handler_for_http := Some ?ok\<rparr>" ?ok
                "\<lambda>u. True" Client_ctor "[]" "[]" 0, OF _ a]
          authentication_handler_applied
            [of "example_Configuration\<lparr>authentication_handler_for_http := Some ?bad\<rparr>" ?bad
                "\<lambda>u. True" Client_ctor "[]" "[]" 0, OF _ a]
    by simp
qed

text \<open>
  C3, the claim as stated: a handler that raises makes the submission fail with
  \<open>CredentialResolutionFailed\<close>.  A handler raising another exception makes \<open>get\<close>
  fail with that exception instead.
\<close>

theorem handler_error_not_reclassified:
  "fst (Client_get (\<lambda>u. True) Client_ctor
          (example_Configuration\<lparr>authentication_handler_for_http :=
              Some (\<lambda>u. Inl (runtime_error ''denied''))\<rparr>))
   \<noteq> Inl CredentialResolutionFailed"
  by (simp add: Client_get_def Handle_defs example_Configuration_def default_Configuration_def
      c_str_def)

text \<open>
  With \<^verbatim>\<open>Handle::url\<close> as the spec describes it, a submission operation fails with
  \<open>InvalidRequest\<close>, creates no request and leaves the client as it was exactly when the
  configured URI, cut at its first NUL byte, is empty or malformed.  For a URI without NUL
  bytes that is the configured URI itself.
\<close>

lemma c_str_no_nul: "CHR 0x00 \<notin> set s \<Longrightarrow> c_str s = s"
  unfolding c_str_def by (rule takeWhile_eq_all_conv[THEN iffD2]) auto

lemma c_string_url_rejected:
  "(c_str (uri cfg) = [] \<or> \<not> wfu (c_str (uri cfg)) \<longrightarrow>
       Client_head wfu c cfg = (Inl InvalidRequest, c)
     \<and> Client_get wfu c cfg = (Inl InvalidRequest, c)
     \<and> Client_post wfu c cfg payload ct = (Inl InvalidRequest, c)
     \<and> Client_put wfu c cfg sz = (Inl InvalidRequest, c))
   \<and> (uri cfg = [] \<longrightarrow> c_str (uri cfg) = [])
   \<and> (fst (Client_head wfu c cfg) = Inr req \<or> fst (Client_get wfu c cfg) = Inr req
        \<or> fst (Client_post wfu c cfg payload ct) = Inr req
        \<or> fst (Client_put wfu c cfg sz) = Inr req
      \<longrightarrow> c_str (uri cfg) \<noteq> [] \<and> wfu (c_str (uri cfg)))"
  by (auto simp: submission_defs Handle_url_def c_str_def)

lemma nul_free_url_rejected:
  assumes "CHR 0x00 \<notin> set (uri cfg)" and "uri cfg = [] \<or> \<not> wfu (uri cfg)"
  shows "Client_head wfu c cfg = (Inl InvalidRequest, c)"
    and "Client_get wfu c cfg = (Inl InvalidRequest, c)"
    and "Client_post wfu c cfg payload ct = (Inl InvalidRequest, c)"
    and "Client_put wfu c cfg sz = (Inl InvalidRequest, c)"
  using assms c_string_url_rejected[of cfg wfu c payload ct sz] c_str_no_nul[of "uri cfg"]
  by auto

text \<open>
  C4 (the code departs from the claim).  The claim: a configuration with an empty or malformed
  URL fails with \<open>InvalidRequest\<close> and yields no request.  Every operation hands
  \<^verbatim>\<open>configuration.uri.c_str()\<close> to the handle, which therefore sees the URI only up to
  its first NUL byte.  The URI \<open>http://a\<close>, NUL, \<open> not a url\<close> is malformed for a test that
  refuses NUL bytes and spaces; the handle is given \<open>http://a\<close>, accepts it, and all four
  operations return a request.  Whatever the URL test is, the operations treat this
  configuration as they treat the one whose URI is \<open>http://a\<close>.
\<close>

theorem malformed_url_cut_at_nul_accepted:
  "\<not> no_nul_no_space (uri cut_Configuration)
   \<and> (\<exists>req. Client_head no_nul_no_space Client_ctor cut_Configuration
               = (Inr req, registered Client_ctor (r_handle req))
            \<and> h_url (r_handle req) = ''http://a'')
   \<and> (\<exists>req. Client_get no_nul_no_space Client_ctor cut_Configuration
               = (Inr req, registered Client_ctor (r_handle req))
            \<and> h_url (r_handle req) = ''http://a'')
   \<and> (\<exists>req. Client_post no_nul_no_space Client_ctor cut_Configuration ''x'' ''text/plain''
               = (Inr req, registered Client_ctor (r_handle req))
            \<and> h_url (r_handle req) = ''http://a'')
   \<and> (\<exists>req. Client_put no_nul_no_space Client_ctor cut_Configuration 1
               = (Inr req, registered Client_ctor (r_handle req))
            \<and> h_url (r_handle req) = ''http://a'')
   \<and> Client_head wfu c cut_Configuration
       = Client_head wfu c (default_Configuration\<lparr>uri := ''http://a''\<rparr>)
   \<and> Client_get wfu c cut_Configuration
       = Client_get wfu c (default_Configuration\<lparr>uri := ''http://a''\<rparr>)
   \<and> Client_post wfu c cut_Configuration payload ct
       = Client_post wfu c (default_Configuration\<lparr>uri := ''http://a''\<rparr>) payload ct
   \<and> Client_put wfu c cut_Configuration sz
       = Client_put wfu c (default_Configuration\<lparr>uri := ''http://a''\<rparr>) sz"
  by (simp add: submission_defs Handle_defs Request_ctor_def registered_def cut_Configuration_def
      default_Configuration_def c_str_def no_nul_no_space_def)

text \<open>
  C7.  Whenever a submission succeeds, that is, the URL handed to the handle is accepted and
  the authentication handler, if there is one, yields credentials, each of the four operations
  returns a request whose handle has its host-verification option set from
  \<open>ssl.verify_host\<close> alone and its peer-verification option set from \<open>ssl.verify_peer\<close>
  alone: each option is on exactly when its own flag is.  The default configuration has both
  flags on.
\<close>

theorem tls_flags_mapped:
  assumes "c_str (uri cfg) \<noteq> [] \<and> wfu (c_str (uri cfg))" and "handler_yields cfg"
  shows "(\<exists>req. Client_head wfu c cfg = (Inr req, registered c (r_handle req))
               \<and> tls_policy_mapped cfg (r_handle req))
       \<and> (\<exists>req. Client_get wfu c cfg = (Inr req, registered c (r_handle req))
               \<and> tls_policy_mapped cfg (r_handle req))
       \<and> (\<exists>req. Client_post wfu c cfg payload ct = (Inr req, registered c (r_handle req))
               \<and> tls_policy_mapped cfg (r_handle req))
       \<and> (\<exists>req. Client_put wfu c cfg sz = (Inr req, registered c (r_handle req))
               \<and> tls_policy_mapped cfg (r_handle req))
       \<and> verify_host (ssl default_Configuration) \<and> verify_peer (ssl default_Configuration)"
proof -
  have v: "enable_ssl_host_verification \<noteq> disable" "enable \<noteq> disable"
    by (simp_all add: enable_ssl_host_verification_def enable_def disable_def)
  consider (none) "authentication_handler_for_http cfg = None"
    | (some) for_http cr where "authentication_handler_for_http cfg = Some for_http"
        "for_http (uri cfg) = Inr cr"
    using assms(2) by (auto simp: handler_yields_def split: option.splits sum.splits)
  then show ?thesis
  proof cases
    case none
    then show ?thesis
      using assms(1) v
      by (simp add: submission_defs Handle_defs Request_ctor_def registered_def
          tls_policy_mapped_def option_on_def default_Configuration_def)
  next
    case some
    then show ?thesis
      using assms(1) v
      by (simp add: submission_defs Handle_defs Request_ctor_def registered_def
          tls_policy_mapped_def option_on_def default_Configuration_def)
  qed
qed

theorem tls_flags_mapped_witness:
  "(\<exists>req. fst (Client_head (\<lambda>u. True) Client_ctor
                 (example_Configuration\<lparr>ssl := \<lparr>verify_peer = False, verify_host = True\<rparr>\<rparr>))
             = Inr req
          \<and> option_on (h_options (r_handle req) ssl_verify_host)
          \<and> \<not> option_on (h_options (r_handle req) ssl_verify_peer))
   \<and> (\<exists>req. fst (Client_get (\<lambda>u. True) Client_ctor
                 (example_Configuration\<lparr>ssl := \<lparr>verify_peer = False, verify_host = True\<rparr>\<rparr>))
             = Inr req
          \<and> option_on (h_options (r_handle req) ssl_verify_host)
          \<and> \<not> option_on (h_options (r_handle req) ssl_verify_peer))
   \<and> (\<exists>req. fst (Client_post (\<lambda>u. True) Client_ctor
                 (example_Configuration\<lparr>ssl := \<lparr>verify_peer = True, verify_host = False\<rparr>\<rparr>)
                 ''x'' ''text/plain'')
             = Inr req
          \<and> \<not> option_on (h_options (r_handle req) ssl_verify_host)
          \<and> option_on (h_options (r_handle req) ssl_verify_peer))
   \<and> (\<exists>req. fst (Client_put (\<lambda>u. True) Client_ctor
                 (example_Configuration\<lparr>ssl := \<lparr>verify_peer = True, verify_host = False\<rparr>\<rparr>) 1)
             = Inr req
          \<and> \<not> option_on (h_options (r_handle req) ssl_verify_host)
          \<and> option_on (h_options (r_handle req) ssl_verify_peer))"
proof -
  let ?a = "example_Configuration\<lparr>ssl := \<lparr>verify_peer = False, verify_host = True\<rparr>\<rparr>"
  let ?b = "example_Configuration\<lparr>ssl := \<lparr>verify_peer = True, verify_host = False\<rparr>\<rparr>"
  have u: "c_str (uri (example_Configuration\<lparr>ssl := p\<rparr>)) \<noteq> []
           \<and> (\<lambda>u. True) (c_str (uri (example_Configuration\<lparr>ssl := p\<rparr>)))" for p
    using example_accepted by simp
  have h: "handler_yields (example_Configuration\<lparr>ssl := p\<rparr>)" for p
    by (simp add: handler_yields_def example_Configuration_def default_Configuration_def)
  note A = tls_flags_mapped[where cfg="?a" and wfu="\<lambda>u. True" and c=Client_ctor
             and payload="''x''" and ct="''text/plain''" and sz=1, OF u h]
  note B = tls_flags_mapped[where cfg="?b" and wfu="\<lambda>u. True" and c=Client_ctor
             and payload="''x''" and ct="''text/plain''" and sz=1, OF u h]
  show ?thesis
    using A B by (fastforce simp: tls_policy_mapped_def)
qed

text \<open>
  C8 (the code departs from the claim).  The claim: \<open>post\<close> attaches the whole payload,
  embedded NUL bytes included.  The body handed to the handle is \<^verbatim>\<open>payload.c_str()\<close>,
  which ends at the first NUL byte: of the three bytes \<open>a\<close>, NUL, \<open>b\<close> only \<open>a\<close> is attached.
\<close>

theorem post_payload_cut_at_nul:
  "(case fst (Client_post (\<lambda>u. True) Client_ctor example_Configuration
                [CHR ''a'', CHR 0x00, CHR ''b''] ''text/plain'') of
      Inl e \<Rightarrow> None
    | Inr req \<Rightarrow> Some (h_body (r_handle req)))
   = Some (buffer ''a'' ''text/plain'')"
  by (simp add: Client_post_def Handle_defs Request_ctor_def example_Configuration_def
      default_Configuration_def c_str_def)

text \<open>
  C9.  With the request constructor as the spec describes it: when the URL handed to the
  handle is accepted and the authentication handler, if there is one, yields credentials,
  every submission operation returns a request in the pending state whose handle has been
  registered with the multiplexer as a new entry; nothing else of the client changes, in
  particular no transfer is driven or completed by the call.
\<close>

theorem submission_registers_pending:
  assumes "c_str (uri cfg) \<noteq> [] \<and> wfu (c_str (uri cfg))" and "handler_yields cfg"
  shows "(\<exists>req. Client_head wfu c cfg = (Inr req, registered c (r_handle req))
               \<and> r_state req = pending \<and> r_id req = length (m_active (multi c)))
       \<and> (\<exists>req. Client_get wfu c cfg = (Inr req, registered c (r_handle req))
               \<and> r_state req = pending \<and> r_id req = length (m_active (multi c)))
       \<and> (\<exists>req. Client_post wfu c cfg payload ct = (Inr req, registered c (r_handle req))
               \<and> r_state req = pending \<and> r_id req = length (m_active (multi c)))
       \<and> (\<exists>req. Client_put wfu c cfg sz = (Inr req, registered c (r_handle req))
               \<and> r_state req = pending \<and> r_id req = length (m_active (multi c)))
       \<and> m_active (multi (registered c h)) = m_active (multi c) @ [h]
       \<and> m_timings (multi (registered c h)) = m_timings (multi c)
       \<and> m_options (multi (registered c h)) = m_options (multi c)"
  using assms
  by (auto simp: submission_defs handler_yields_def Handle_defs Request_ctor_def
                 registered_def Let_def
           split: option.splits sum.splits)

theorem submission_registers_pending_witness:
  "\<exists>req. Client_get (\<lambda>u. True) Client_ctor example_Configuration
           = (Inr req, registered Client_ctor (r_handle req))
        \<and> r_state req = pending \<and> r_id req = 0"
proof -
  have "handler_yields example_Configuration"
    by (simp add: handler_yields_def example_Configuration_def default_Configuration_def)
  from submission_registers_pending[OF example_accepted this, of Client_ctor]
  show ?thesis by (simp add: Client_ctor_def)
qed

text \<open>
  C10.  The codec member functions are pure: the result depends on the string argument alone,
  whatever the client, and the client is returned unchanged.
\<close>

theorem base64_codec_pure:
  "(s = s' \<longrightarrow>
      fst (Client_base64_encode c s) = fst (Client_base64_encode c' s')
    \<and> fst (Client_base64_decode c s) = fst (Client_base64_decode c' s'))
   \<and> snd (Client_base64_encode c s) = c \<and> snd (Client_base64_decode c s) = c"
  by (simp add: Client_base64_encode_def Client_base64_decode_def)

theorem base64_codec_pure_witness:
  "fst (Client_base64_encode Client_ctor ''Man'')
     = fst (Client_base64_encode (registered Client_ctor Handle_ctor) ''Man'')
   \<and> snd (Client_base64_encode Client_ctor ''Man'') = Client_ctor"
  using base64_codec_pure[of "''Man''" "''Man''" Client_ctor "registered Client_ctor Handle_ctor"]
  by simp

end
